theory Spec2Isabelle
  imports Main "HOL-Library.Word" "HOL-Library.Char_ord" "HOL-Library.List_Lexorder"
    "HOL-Library.AList"
begin

unbundle bit_operations_syntax

section \<open>Go library functions used by the program\<close>

text \<open>
  Go strings are byte sequences: \<open>string\<close> (a \<open>char list\<close>) models them byte for byte.
  File contents and streams are lists of bytes.
\<close>

type_synonym byte = "8 word"

subsection \<open>Package strings\<close>

text \<open>\<open>strings.Split(s, sep)\<close> for a one-byte separator: always at least one field.\<close>

fun strings_Split :: "string \<Rightarrow> char \<Rightarrow> string list" where
  "strings_Split [] sep = [[]]"
| "strings_Split (c # cs) sep =
     (if c = sep then [] # strings_Split cs sep
      else (case strings_Split cs sep of
              [] \<Rightarrow> [[c]]
            | f # fs \<Rightarrow> (c # f) # fs))"

text \<open>\<open>strings.Replace(s, old, new, -1)\<close> for one-byte \<open>old\<close> and \<open>new\<close>.\<close>

definition strings_Replace :: "string \<Rightarrow> char \<Rightarrow> char \<Rightarrow> string" where
  "strings_Replace s old new = map (\<lambda>c. if c = old then new else c) s"

definition strings_HasPrefix :: "string \<Rightarrow> string \<Rightarrow> bool" where
  "strings_HasPrefix s p = (take (length p) s = p)"

definition strings_TrimPrefix :: "string \<Rightarrow> string \<Rightarrow> string" where
  "strings_TrimPrefix s p = (if strings_HasPrefix s p then drop (length p) s else s)"

text \<open>\<open>strings.Join(elems, sep)\<close>.\<close>

fun strings_Join :: "string list \<Rightarrow> string \<Rightarrow> string" where
  "strings_Join [] sep = []"
| "strings_Join [e] sep = e"
| "strings_Join (e # f # es) sep = e @ sep @ strings_Join (f # es) sep"

text \<open>
  \<open>strings.TrimSpace\<close> removes the leading and the trailing white space of Unicode. In the
  UTF-8 encoding of a Go string these are the six ASCII bytes (tab, line feed, vertical tab,
  form feed, carriage return, space) and the encodings of U+0085, U+00A0, U+1680, U+2000
  to U+200A, U+2028, U+2029, U+202F, U+205F and U+3000; a byte sequence that is no valid
  encoding is no white space.
\<close>

definition space_runes :: "string list" where
  "space_runes = map (map char_of)
     [[9 :: nat], [10], [11], [12], [13], [32], [194, 133], [194, 160], [225, 154, 128],
      [226, 128, 128], [226, 128, 129], [226, 128, 130], [226, 128, 131], [226, 128, 132],
      [226, 128, 133], [226, 128, 134], [226, 128, 135], [226, 128, 136], [226, 128, 137],
      [226, 128, 138], [226, 128, 168], [226, 128, 169], [226, 128, 175], [226, 129, 159],
      [227, 128, 128]]"

text \<open>The length of the one of the given byte sequences that the string starts with, or 0.\<close>

definition leading_rune :: "string list \<Rightarrow> string \<Rightarrow> nat" where
  "leading_rune runes s =
     (case find (\<lambda>r. r \<noteq> [] \<and> take (length r) s = r) runes of
        None \<Rightarrow> 0
      | Some r \<Rightarrow> length r)"

function trim_left :: "string list \<Rightarrow> string \<Rightarrow> string" where
  "trim_left runes s =
     (if leading_rune runes s = 0 then s
      else trim_left runes (drop (leading_rune runes s) s))"
  by pat_completeness auto
termination
proof (relation "measure (\<lambda>(runes, s). length s)")
  show "wf (measure (\<lambda>(runes, s). length s))"
    by simp
next
  fix runes :: "string list" and s :: string
  assume a: "leading_rune runes s \<noteq> 0"
  then obtain r where "find (\<lambda>r. r \<noteq> [] \<and> take (length r) s = r) runes = Some r"
    by (auto simp: leading_rune_def split: option.splits)
  then have "r \<noteq> [] \<and> take (length r) s = r"
    by (auto simp: find_Some_iff)
  then have "s \<noteq> []"
    by auto
  with a show "((runes, drop (leading_rune runes s) s), (runes, s)) \<in> measure (\<lambda>(runes, s). length s)"
    by simp
qed

declare trim_left.simps [simp del]

text \<open>The trailing white space is the leading one of the reversed string, each encoding reversed.\<close>

definition strings_TrimSpace :: "string \<Rightarrow> string" where
  "strings_TrimSpace s =
     rev (trim_left (map rev space_runes) (rev (trim_left space_runes s)))"

subsection \<open>Package strconv and decimal formatting\<close>

definition digit_of :: "char \<Rightarrow> nat option" where
  "digit_of c =
     (if CHR ''0'' \<le> c \<and> c \<le> CHR ''9'' then Some (of_char c - 48) else None)"

fun digits_value :: "nat \<Rightarrow> string \<Rightarrow> nat option" where
  "digits_value acc [] = Some acc"
| "digits_value acc (c # cs) =
     (case digit_of c of
        None \<Rightarrow> None
      | Some d \<Rightarrow> digits_value (10 * acc + d) cs)"

text \<open>
  \<open>strconv.Atoi\<close>: an optional sign, then one or more decimal digits; an error (\<open>None\<close>)
  on an empty digit string, on any other byte and on a value outside the 64-bit \<open>int\<close>.
\<close>

definition strconv_Atoi :: "string \<Rightarrow> int option" where
  "strconv_Atoi s =
     (let neg = (s \<noteq> [] \<and> hd s = CHR ''-'');
          ds = (if s \<noteq> [] \<and> (hd s = CHR ''-'' \<or> hd s = CHR ''+'') then tl s else s)
      in if ds = [] then None
         else (case digits_value 0 ds of
                 None \<Rightarrow> None
               | Some n \<Rightarrow>
                   (let v = (if neg then - int n else int n)
                    in if - (2 ^ 63) \<le> v \<and> v < 2 ^ 63 then Some v else None)))"

text \<open>The verb \<open>%d\<close> of \<open>fmt.Sprintf\<close>.\<close>

fun show_nat :: "nat \<Rightarrow> string" where
  "show_nat n =
     (if n < 10 then [''0123456789'' ! n]
      else show_nat (n div 10) @ [''0123456789'' ! (n mod 10)])"

declare show_nat.simps [simp del]

definition show_int :: "int \<Rightarrow> string" where
  "show_int i = (if i < 0 then CHR ''-'' # show_nat (nat (- i)) else show_nat (nat i))"

subsection \<open>Package path/filepath (Unix)\<close>

text \<open>
  \<open>filepath.Clean\<close> by its documented rules, one path element at a time: \<open>out\<close> is the list
  of elements written so far. An empty element (a repeated separator) and \<open>.\<close> are dropped;
  \<open>..\<close> removes the element before it when there is one that is not itself \<open>..\<close>, is kept
  at the start of a path that is not rooted, and is dropped at the root.
\<close>

definition clean_step :: "bool \<Rightarrow> string list \<Rightarrow> string \<Rightarrow> string list" where
  "clean_step rooted out e =
     (if e = [] \<or> e = ''.'' then out
      else if e = ''..'' then
        (if out \<noteq> [] \<and> last out \<noteq> ''..'' then butlast out
         else if \<not> rooted then out @ [''..'']
         else out)
      else out @ [e])"

definition clean_elems :: "string \<Rightarrow> string list" where
  "clean_elems path =
     foldl (clean_step (path \<noteq> [] \<and> hd path = CHR ''/'')) [] (strings_Split path (CHR ''/''))"

definition filepath_Clean :: "string \<Rightarrow> string" where
  "filepath_Clean path =
     (if path = [] then ''.''
      else (let rooted = (hd path = CHR ''/'');
                s = (if rooted then ''/'' else []) @ strings_Join (clean_elems path) ''/''
            in if s = [] then ''.'' else s))"

text \<open>
  \<open>filepath.Join\<close>: the elements from the first non-empty one on, joined by the separator
  and cleaned; the empty string when every element is empty.
\<close>

definition filepath_Join :: "string list \<Rightarrow> string" where
  "filepath_Join elem =
     (case dropWhile (\<lambda>e. e = []) elem of
        [] \<Rightarrow> []
      | es \<Rightarrow> filepath_Clean (strings_Join es ''/''))"

text \<open>\<open>filepath.Dir\<close>: the path up to and including its last separator, cleaned.\<close>

definition filepath_Dir :: "string \<Rightarrow> string" where
  "filepath_Dir path = filepath_Clean (rev (dropWhile (\<lambda>c. c \<noteq> CHR ''/'') (rev path)))"

subsection \<open>Package os: file modes\<close>

text \<open>
  \<open>os.FileMode\<close> is a \<open>uint32\<close>: the nine permission bits are the low bits (\<open>0777\<close> octal is
  511), \<open>ModeDir\<close> is bit 31.
\<close>

type_synonym FileMode = "32 word"

definition ModeDir :: FileMode where
  "ModeDir = push_bit 31 1"

definition Perm :: "FileMode \<Rightarrow> FileMode" where
  "Perm m = m AND 511"

definition IsDir :: "FileMode \<Rightarrow> bool" where
  "IsDir m = (m AND ModeDir \<noteq> 0)"

section \<open>The file system\<close>

text \<open>
  A file system of regular files and directories (no links, no devices), read and written
  by a process of the superuser, whom no permission bit keeps from a file: a tree whose
  root is the directory \<open>/\<close>. Each node carries its permission bits; a
  directory lists its entries by name. The process has a working directory, given by its
  elements from the root, against which a path that is not rooted is resolved, and a file
  mode creation mask, whose bits a new file or directory does not get.
\<close>

datatype node =
  File FileMode "byte list"
| Directory FileMode "(string \<times> node) list"

record filesys =
  root :: node
  cwd :: "string list"
  umask :: FileMode

datatype errno = ENOENT | ENOTDIR | EISDIR | EINVAL | EBUSY | ENAMETOOLONG

text \<open>What \<open>Stat\<close> and \<open>Lstat\<close> report as \<open>info.Mode()\<close>.\<close>

fun Mode :: "node \<Rightarrow> FileMode" where
  "Mode (File p b) = Perm p"
| "Mode (Directory p es) = ModeDir OR Perm p"

text \<open>
  The elements the kernel walks for a path: from the root for a rooted path, from the
  working directory otherwise; empty elements and \<open>.\<close> stay in place, \<open>..\<close> goes up (and
  stays at the root).
\<close>

definition resolve_step :: "string list \<Rightarrow> string \<Rightarrow> string list" where
  "resolve_step at e =
     (if e = [] \<or> e = ''.'' then at
      else if e = ''..'' then butlast at
      else at @ [e])"

definition resolve :: "string list \<Rightarrow> string \<Rightarrow> string list" where
  "resolve wd path =
     foldl resolve_step (if path \<noteq> [] \<and> hd path = CHR ''/'' then [] else wd)
       (strings_Split path (CHR ''/''))"

text \<open>
  The paths a system call refuses before it walks them: the empty path does not exist, a
  path with a NUL byte is invalid (Go reports \<open>EINVAL\<close> without calling the kernel), and a
  path of 4096 bytes (\<open>PATH_MAX\<close>, which counts the final NUL) or more is too long. On the
  walk, the name of an entry has at most 255 bytes (\<open>NAME_MAX\<close>).
\<close>

definition path_error :: "string \<Rightarrow> errno option" where
  "path_error path =
     (if path = [] then Some ENOENT
      else if CHR 0x00 \<in> set path then Some EINVAL
      else if 4096 \<le> length path then Some ENAMETOOLONG
      else None)"

definition name_error :: "string \<Rightarrow> errno option" where
  "name_error e =
     (if CHR 0x00 \<in> set e then Some EINVAL
      else if 255 < length e then Some ENAMETOOLONG
      else None)"

fun lookup :: "node \<Rightarrow> string list \<Rightarrow> errno + node" where
  "lookup n [] = Inr n"
| "lookup (File p b) (e # es) = Inl ENOTDIR"
| "lookup (Directory p ents) (e # es) =
     (case name_error e of
        Some err \<Rightarrow> Inl err
      | None \<Rightarrow>
          (case map_of ents e of
             None \<Rightarrow> Inl ENOENT
           | Some n \<Rightarrow> lookup n es))"

text \<open>\<open>os.Open\<close>, \<open>os.Lstat\<close>: the node at the path.\<close>

definition os_Open :: "filesys \<Rightarrow> string \<Rightarrow> errno + node" where
  "os_Open fs path =
     (case path_error path of
        Some e \<Rightarrow> Inl e
      | None \<Rightarrow> lookup (root fs) (resolve (cwd fs) path))"

definition os_Lstat :: "filesys \<Rightarrow> string \<Rightarrow> errno + node" where
  "os_Lstat fs path =
     (case path_error path of
        Some e \<Rightarrow> Inl e
      | None \<Rightarrow> lookup (root fs) (resolve (cwd fs) path))"

definition os_IsNotExist :: "errno \<Rightarrow> bool" where
  "os_IsNotExist e = (e = ENOENT)"

text \<open>
  \<open>os.MkdirAll\<close> makes the directories of the path from the top down: an existing
  directory is left as it is, an existing file on the way is an error, and a missing
  directory is made with the given permission bits less those of the mask. A name that is
  refused ends the call with its error; the directories made before it stay. The result is
  the file system after the call and the error. A path of 4096 bytes or more is refused as
  a whole.
\<close>

fun mkdir_all :: "node \<Rightarrow> string list \<Rightarrow> FileMode \<Rightarrow> node \<times> errno option" where
  "mkdir_all (File p b) es perm = (File p b, Some ENOTDIR)"
| "mkdir_all (Directory p ents) [] perm = (Directory p ents, None)"
| "mkdir_all (Directory p ents) (e # es) perm =
     (case name_error e of
        Some err \<Rightarrow> (Directory p ents, Some err)
      | None \<Rightarrow>
          (case mkdir_all (case map_of ents e of None \<Rightarrow> Directory perm [] | Some n \<Rightarrow> n)
                  es perm of
             (n', err) \<Rightarrow> (Directory p (AList.update e n' ents), err)))"

definition os_MkdirAll :: "filesys \<Rightarrow> string \<Rightarrow> FileMode \<Rightarrow> filesys \<times> errno option" where
  "os_MkdirAll fs path perm =
     (if path = [] then (fs, Some ENOENT)
      else if 4096 \<le> length path
      then (fs, Some (if CHR 0x00 \<in> set path then EINVAL else ENAMETOOLONG))
      else (case mkdir_all (root fs) (resolve (cwd fs) path) (perm AND NOT (umask fs)) of
              (r, err) \<Rightarrow> (fs\<lparr>root := r\<rparr>, err)))"

text \<open>
  \<open>os.Create\<close> (\<open>O_RDWR|O_CREATE|O_TRUNC\<close>, mode \<open>0666\<close>, 438): an existing file is
  truncated and keeps its mode, a missing one is made empty, with the mode less the bits
  of the mask, in its directory, which must exist.
\<close>

fun create_file :: "node \<Rightarrow> string list \<Rightarrow> FileMode \<Rightarrow> errno + node" where
  "create_file (File p b) [] perm = Inr (File p [])"
| "create_file (Directory p ents) [] perm = Inl EISDIR"
| "create_file (File p b) (e # es) perm = Inl ENOTDIR"
| "create_file (Directory p ents) (e # es) perm =
     (case name_error e of
        Some err \<Rightarrow> Inl err
      | None \<Rightarrow>
          (case map_of ents e of
             None \<Rightarrow>
               (if es = [] then Inr (Directory p (AList.update e (File perm []) ents))
                else Inl ENOENT)
           | Some n \<Rightarrow>
               (case create_file n es perm of
                  Inl err \<Rightarrow> Inl err
                | Inr n' \<Rightarrow> Inr (Directory p (AList.update e n' ents)))))"

definition os_Create :: "filesys \<Rightarrow> string \<Rightarrow> errno + filesys" where
  "os_Create fs path =
     (case path_error path of
        Some e \<Rightarrow> Inl e
      | None \<Rightarrow>
          (case create_file (root fs) (resolve (cwd fs) path) (438 AND NOT (umask fs)) of
             Inl err \<Rightarrow> Inl err
           | Inr r \<Rightarrow> Inr (fs\<lparr>root := r\<rparr>)))"

text \<open>A write through the handle of an open file appends at the end of that file.\<close>

fun append_file :: "node \<Rightarrow> string list \<Rightarrow> byte list \<Rightarrow> node" where
  "append_file (File p b) [] data = File p (b @ data)"
| "append_file (Directory p ents) [] data = Directory p ents"
| "append_file (File p b) (e # es) data = File p b"
| "append_file (Directory p ents) (e # es) data =
     (case map_of ents e of
        None \<Rightarrow> Directory p ents
      | Some n \<Rightarrow> Directory p (AList.update e (append_file n es data) ents))"

definition file_Write :: "filesys \<Rightarrow> string \<Rightarrow> byte list \<Rightarrow> filesys" where
  "file_Write fs path data = fs\<lparr>root := append_file (root fs) (resolve (cwd fs) path) data\<rparr>"

text \<open>
  \<open>os.RemoveAll\<close>: the empty path and a path that does not exist are no error; \<open>.\<close> as the
  last element is refused; a path or a name that the kernel refuses and a file on the way
  to the path are errors; the root directory is emptied and cannot itself be removed.
\<close>

fun remove_at :: "node \<Rightarrow> string list \<Rightarrow> node" where
  "remove_at (File p b) es = File p b"
| "remove_at (Directory p ents) [] = Directory p []"
| "remove_at (Directory p ents) [e] = Directory p (AList.delete e ents)"
| "remove_at (Directory p ents) (e # es) =
     (case map_of ents e of
        None \<Rightarrow> Directory p ents
      | Some n \<Rightarrow> Directory p (AList.update e (remove_at n es) ents))"

definition os_RemoveAll :: "filesys \<Rightarrow> string \<Rightarrow> filesys \<times> errno option" where
  "os_RemoveAll fs path =
     (if path = [] then (fs, None)
      else if path = ''.'' \<or> (length path \<ge> 2 \<and> drop (length path - 2) path = ''/.'')
      then (fs, Some EINVAL)
      else (case path_error path of
              Some e \<Rightarrow> (fs, Some e)
            | None \<Rightarrow>
                (let es = resolve (cwd fs) path
                 in case lookup (root fs) es of
                      Inl e \<Rightarrow> (fs, if e = ENOENT then None else Some e)
                    | Inr n \<Rightarrow>
                        (fs\<lparr>root := remove_at (root fs) es\<rparr>,
                         if es = [] then Some EBUSY else None))))"

text \<open>
  \<open>filepath.Walk\<close> with the function of \<open>Write\<close>: the node itself is visited, then, for a
  directory, its entries in the order of their names, each under the joined path and after
  an \<open>Lstat\<close> of this path. When the \<open>Lstat\<close> is refused, the function of \<open>Write\<close> is
  called with the error and returns it, which ends the whole walk. The result is the list
  of the visits made and whether the walk came to its end.
\<close>

definition lstat_refused :: "string \<Rightarrow> string \<Rightarrow> bool" where
  "lstat_refused filename name = (path_error filename \<noteq> None \<or> name_error name \<noteq> None)"

function walk_node :: "string \<Rightarrow> node \<Rightarrow> (string \<times> node) list \<times> bool"
  and walk_entries :: "string \<Rightarrow> (string \<times> node) list \<Rightarrow> (string \<times> node) list \<times> bool" where
  "walk_node path (File p b) = ([(path, File p b)], True)"
| "walk_node path (Directory p ents) =
     (case walk_entries path (sort_key fst ents) of
        (vs, ok) \<Rightarrow> ((path, Directory p ents) # vs, ok))"
| "walk_entries path [] = ([], True)"
| "walk_entries path ((name, n) # rest) =
     (if lstat_refused (filepath_Join [path, name]) name then ([], False)
      else (case walk_node (filepath_Join [path, name]) n of
              (vs, ok) \<Rightarrow>
                (if ok
                 then (case walk_entries path rest of (vs', ok') \<Rightarrow> (vs @ vs', ok'))
                 else (vs, False))))"
  by pat_completeness auto
termination
proof (relation "measure (\<lambda>x. case x of
          Inl (path, n) \<Rightarrow> 2 * size n
        | Inr (path, ents) \<Rightarrow> 2 * size_list (size_prod (\<lambda>_. 0) size) ents + 1)")
  have ins: "size_list f (insort_key k x xs) = Suc (f x + size_list f xs)"
    for f :: "string \<times> node \<Rightarrow> nat" and k :: "string \<times> node \<Rightarrow> string" and x xs
    by (induction xs) auto
  have srt: "size_list f (sort_key k xs) = size_list f xs"
    for f :: "string \<times> node \<Rightarrow> nat" and k :: "string \<times> node \<Rightarrow> string" and xs
    by (induction xs) (auto simp: ins)
  fix path :: string and p :: FileMode and ents :: "(string \<times> node) list"
  show "(Inr (path, sort_key fst ents), Inl (path, Directory p ents))
        \<in> measure (\<lambda>x. case x of
          Inl (path, n) \<Rightarrow> 2 * size n
        | Inr (path, ents) \<Rightarrow> 2 * size_list (size_prod (\<lambda>_. 0) size) ents + 1)"
    by (simp add: srt)
qed auto

definition walk :: "string \<Rightarrow> node \<Rightarrow> (string \<times> node) list" where
  "walk path n = fst (walk_node path n)"

section \<open>Errors, readers and writers\<close>

text \<open>
  Go errors as values: an \<open>errno\<close> of a failed system call, the sentinel errors (each
  \<open>errors.New\<close> is a value of its own), the build error (the struct \<open>Error\<close>: cause and
  captured standard error output), an error wrapped by \<open>fmt.Errorf("...: %w", err)\<close> under
  its message, and any other error by its text.

  Modelled from the spec: the declaration of \<open>gobinaries.ErrObjectNotFound\<close>, the error
  \<open>Local.Get\<close> returns for a missing object, is not among the source files; it is the
  distinguished not-found condition of the spec. \<open>storage.ErrObjectNotFound\<close> is the variable
  that \<open>local.go\<close> declares.
\<close>

datatype error =
  Errno errno
| ErrString string
| gobinaries_ErrObjectNotFound
| storage_ErrObjectNotFound
| ErrNotExecutable
| BuildError error string
| Wrap string error

text \<open>
  An \<open>io.Reader\<close>: the chunks its \<open>Read\<close> calls deliver, then the end of the stream or
  an error. An \<open>io.Writer\<close>: what was written to it, and how many more bytes it accepts
  before it fails (\<open>None\<close>: any number).
\<close>

record reader =
  chunks :: "byte list list"
  fails :: "error option"

record writer =
  written :: "byte list"
  room :: "nat option"

text \<open>Reading an open file to its end; a directory cannot be read.\<close>

fun ReadAll :: "node \<Rightarrow> errno + byte list" where
  "ReadAll (File p b) = Inr b"
| "ReadAll (Directory p ents) = Inl EISDIR"

text \<open>
  \<open>io.Copy\<close> from a reader into an open file: every chunk read is written before the next
  is read, and an error of the reader ends the copy with what was written so far.
\<close>

definition copy_to_file :: "filesys \<Rightarrow> string \<Rightarrow> reader \<Rightarrow> filesys \<times> error option" where
  "copy_to_file fs path r = (foldl (\<lambda>fs' c. file_Write fs' path c) fs (chunks r), fails r)"

text \<open>
  \<open>io.Copy\<close> from an open file into a writer: the bytes that fit are written, and a
  writer that accepts no more fails the copy.
\<close>

definition copy_to_writer :: "writer \<Rightarrow> node \<Rightarrow> writer \<times> error option" where
  "copy_to_writer w f =
     (case ReadAll f of
        Inl e \<Rightarrow> (w, Some (Errno e))
      | Inr b \<Rightarrow>
          (case room w of
             None \<Rightarrow> (w\<lparr>written := written w @ b\<rparr>, None)
           | Some k \<Rightarrow>
               (if length b \<le> k
                then (w\<lparr>written := written w @ b, room := Some (k - length b)\<rparr>, None)
                else (w\<lparr>written := written w @ take k b, room := Some 0\<rparr>,
                      Some (ErrString ''short write'')))))"

section \<open>The build target\<close>

text \<open>
  Modelled from the spec: the declaration of the type \<open>gobinaries.Binary\<close> is not among the
  source files. The record has the five fields of the spec's build target (module, version,
  os, arch, cgo) under the names the code reads them by, and the field \<open>Path\<close> that
  \<open>Local.getKey\<close> reads; all are Go strings.
\<close>

record Binary =
  Path :: string
  Module :: string
  Version :: string
  OS :: string
  Arch :: string
  CGO :: string

section \<open>Package build: the toolchain invocation\<close>

text \<open>The map \<open>environMap\<close>; a Go map read at a missing key gives the empty string.\<close>

type_synonym environ_map = "string \<rightharpoonup> string"

definition map_get :: "environ_map \<Rightarrow> string \<Rightarrow> string" where
  "map_get m k = (case m k of None \<Rightarrow> [] | Some v \<Rightarrow> v)"

text \<open>
  \<open>init\<close>: every entry of \<open>os.Environ()\<close> is split at each \<open>=\<close>; field 0 is the key and
  field 1 the value. An entry without \<open>=\<close> has no field 1 and the index panics (\<open>None\<close>).
\<close>

fun init :: "string list \<Rightarrow> environ_map \<Rightarrow> environ_map option" where
  "init [] m = Some m"
| "init (v # vs) m =
     (case strings_Split v (CHR ''='') of
        p0 # p1 # rest \<Rightarrow> init vs (m(p0 \<mapsto> p1))
      | _ \<Rightarrow> None)"

definition environWhitelist :: "string list" where
  "environWhitelist = [''PATH'', ''HOME'', ''PWD'', ''GOPATH'', ''GOLANG_VERSION'', ''TMPDIR'']"

text \<open>\<open>environ\<close>: one \<open>name=value\<close> per whitelisted name, appended in the list's order.\<close>

definition environ :: "environ_map \<Rightarrow> string list" where
  "environ m = foldl (\<lambda>env name. env @ [name @ ''='' @ map_get m name]) [] environWhitelist"

text \<open>An \<open>exec.Cmd\<close>: the argument vector, the environment list and the working directory.\<close>

record Cmd =
  Args :: "string list"
  Env :: "string list"
  Dir :: string

text \<open>
  The command \<open>install\<close> builds before it runs it. \<open>home\<close> is the result of
  \<open>os.UserHomeDir()\<close>, whose error \<open>install\<close> drops: the directory is empty on an error.
\<close>

definition install_cmd :: "environ_map \<Rightarrow> string \<Rightarrow> Binary \<Rightarrow> string \<Rightarrow> Cmd" where
  "install_cmd m home bin dir =
     (let ldflags = ''-s -w -X main.version='' @ Version bin;
          env0 = environ m;
          env1 = env0 @ [''GOPATH='' @ dir];
          env2 = env1 @ [''CGO_ENABLED='' @ CGO bin];
          env3 = env2 @ [''GOOS='' @ OS bin];
          env4 = (if strings_HasPrefix (Arch bin) ''armv''
                  then (env3 @ [''GOARCH=arm''])
                         @ [''GOARM='' @ strings_TrimPrefix (Arch bin) ''armv'']
                  else env3 @ [''GOARCH='' @ Arch bin])
      in \<lparr>Args = [''go'', ''install'', ''-trimpath'', ''-ldflags'', ldflags,
                   Module bin @ ''/...@'' @ Version bin],
          Env = env4,
          Dir = home\<rparr>)"

text \<open>
  The environment \<open>os/exec\<close> (of Go 1.20, the toolchain the program is built with) starts
  the process with, from the field \<open>Env\<close> of the command: of the entries with the same key only the last stays, at its place. The key of
  an entry ends before its first \<open>=\<close> (before the second one when the entry starts with
  \<open>=\<close>); an entry without \<open>=\<close> stays unless it is empty. The list is read from its end,
  with the keys seen so far. An entry with a NUL byte is an error, and the process is not
  started.
\<close>

definition env_key :: "string \<Rightarrow> string option" where
  "env_key kv =
     (if CHR ''='' \<notin> set kv then None
      else if hd kv = CHR ''=''
      then Some (if CHR ''='' \<in> set (tl kv)
                 then CHR ''='' # takeWhile (\<lambda>c. c \<noteq> CHR ''='') (tl kv)
                 else [])
      else Some (takeWhile (\<lambda>c. c \<noteq> CHR ''='') kv))"

fun dedupEnv :: "string list \<Rightarrow> string list \<Rightarrow> string list" where
  "dedupEnv [] saw = []"
| "dedupEnv (kv # env) saw =
     (case env_key kv of
        None \<Rightarrow> (if kv \<noteq> [] then kv # dedupEnv env saw else dedupEnv env saw)
      | Some k \<Rightarrow> (if k \<in> set saw then dedupEnv env saw else kv # dedupEnv env (k # saw)))"

text \<open>\<open>getMajorVersion\<close>: the first dot-separated field of the tag, its first byte dropped.\<close>

definition getMajorVersion :: "string \<Rightarrow> int option" where
  "getMajorVersion tag =
     (case strings_Split tag (CHR ''.'') of
        [] \<Rightarrow> None
      | major # rest \<Rightarrow> if length major < 1 then None else strconv_Atoi (tl major))"

definition normalizeModuleDep :: "Binary \<Rightarrow> string" where
  "normalizeModuleDep bin =
     (let mod' = Module bin; version = Version bin
      in case getMajorVersion version of
           Some major \<Rightarrow>
             (if major > 1 then mod' @ ''/v'' @ show_int major @ ''@'' @ version
              else mod' @ ''@'' @ version)
         | None \<Rightarrow> mod' @ ''@'' @ version)"

section \<open>Package storage: the local object store\<close>

record Local =
  Root :: string
  Prefix :: string

definition getKey :: "Local \<Rightarrow> Binary \<Rightarrow> string" where
  "getKey l bin =
     (let dir = Prefix l @ ''/'' @ strings_Replace (Path bin) (CHR ''/'') (CHR ''-'');
          file = Version bin @ ''-'' @ OS bin @ ''-'' @ Arch bin @ ''-'' @ CGO bin
      in filepath_Join [dir, file])"

text \<open>
  \<open>Local.Create\<close>: the file system after the call and the error returned. The deferred
  \<open>f.Close()\<close> changes neither.
\<close>

definition Local_Create :: "Local \<Rightarrow> filesys \<Rightarrow> reader \<Rightarrow> Binary \<Rightarrow> filesys \<times> error option" where
  "Local_Create l fs r bin =
     (let key = getKey l bin;
          path = filepath_Join [Root l, key]
      in case os_MkdirAll fs (filepath_Dir path) 493 of
           (fs1, Some e) \<Rightarrow> (fs1, Some (Wrap ''making directory'' (Errno e)))
         | (fs1, None) \<Rightarrow>
             (case os_Create fs1 path of
                Inl e \<Rightarrow> (fs1, Some (Wrap ''creating file'' (Errno e)))
              | Inr fs2 \<Rightarrow>
                  (case copy_to_file fs2 path r of
                     (fs3, Some e) \<Rightarrow> (fs3, Some (Wrap ''copying'' e))
                   | (fs3, None) \<Rightarrow> (fs3, None))))"



text \<open>
  \<open>Local.Get\<close>: the open file, or an error. The error returned for a missing object is
  \<open>gobinaries.ErrObjectNotFound\<close>.
\<close>

definition Local_Get :: "Local \<Rightarrow> filesys \<Rightarrow> Binary \<Rightarrow> error + node" where
  "Local_Get l fs bin =
     (let key = getKey l bin;
          path = filepath_Join [Root l, key]
      in case os_Open fs path of
           Inl e \<Rightarrow>
             (if os_IsNotExist e then Inl gobinaries_ErrObjectNotFound
              else Inl (Wrap ''opening file'' (Errno e)))
         | Inr f \<Rightarrow> Inr f)"

section \<open>Package build: writing a binary\<close>

text \<open>
  What \<open>Write\<close> reads and changes outside its arguments: the file system, the environment
  map, the result of \<open>os.UserHomeDir()\<close>, the error of \<open>exec.Command\<close> when it does not
  find the program \<open>go\<close>, the effect of running a started command (the file system after
  it, how it exited, its standard error output), and the errors that \<open>f.Stat()\<close>,
  \<open>f.Close()\<close> and \<open>os.RemoveAll\<close> may return for reasons outside the model.
\<close>

record world =
  files :: filesys
  environMap :: environ_map
  UserHomeDir :: "error + string"
  look_fault :: "error option"
  run :: "Cmd \<Rightarrow> filesys \<Rightarrow> filesys \<times> error option \<times> string"
  stat_fault :: "error option"
  close_fault :: "error option"
  remove_fault :: "error option"

definition isExecutable :: "FileMode \<Rightarrow> bool" where
  "isExecutable mode = (Perm mode AND 73 = 73)"

text \<open>
  \<open>cmd.Run()\<close> returns the error of \<open>exec.Command\<close> if there is one, then the error of
  an environment with a NUL byte, without starting the process; otherwise the process runs
  with the environment that \<open>os/exec\<close> makes of \<open>cmd.Env\<close>.
\<close>

definition exec_environ :: "string list \<Rightarrow> error + string list" where
  "exec_environ env =
     (if \<exists>kv \<in> set env. CHR 0x00 \<in> set kv
      then Inl (ErrString ''exec: environment variable contains NUL'')
      else Inr (rev (dedupEnv (rev env) [])))"

text \<open>\<open>command\<close>: run the command; a failure carries the trimmed standard error output.\<close>

definition command :: "world \<Rightarrow> Cmd \<Rightarrow> world \<times> error option" where
  "command s cmd =
     (case look_fault s of
        Some err \<Rightarrow> (s, Some (BuildError err (strings_TrimSpace [])))
      | None \<Rightarrow>
          (case exec_environ (Env cmd) of
             Inl err \<Rightarrow> (s, Some (BuildError err (strings_TrimSpace [])))
           | Inr env \<Rightarrow>
               (case run s (cmd\<lparr>Env := env\<rparr>) (files s) of
                  (fs', Some err, stderr) \<Rightarrow>
                    (s\<lparr>files := fs'\<rparr>, Some (BuildError err (strings_TrimSpace stderr)))
                | (fs', None, stderr) \<Rightarrow> (s\<lparr>files := fs'\<rparr>, None))))"

definition install :: "world \<Rightarrow> Binary \<Rightarrow> string \<Rightarrow> world \<times> error option" where
  "install s bin dir =
     command s (install_cmd (environMap s)
                  (case UserHomeDir s of Inl e \<Rightarrow> [] | Inr h \<Rightarrow> h) bin dir)"

text \<open>
  The function \<open>Write\<close> passes to \<open>filepath.Walk\<close>, on a visit without error: a visited
  node that is no directory and has some execute bit (\<open>0111\<close> octal is 73) becomes \<open>dst\<close>.
\<close>

definition visit :: "string \<Rightarrow> string \<times> node \<Rightarrow> string" where
  "visit dst v =
     (case v of (path, info) \<Rightarrow>
        if \<not> IsDir (Mode info) \<and> Perm (Mode info) AND 73 \<noteq> 0 then path else dst)"

text \<open>
  The walk of \<open>Write\<close>: when \<open>Lstat\<close> of the root fails, the function is called once with
  the error and returns it, and \<open>dst\<close> stays empty; \<open>Write\<close> prints the error and goes on.
\<close>

definition Walk_dst :: "filesys \<Rightarrow> string \<Rightarrow> string" where
  "Walk_dst fs dir =
     (case os_Lstat fs dir of
        Inl e \<Rightarrow> []
      | Inr n \<Rightarrow> foldl visit [] (walk dir n))"

text \<open>\<open>Write\<close>: the world and the writer after the call, and the error returned.\<close>

definition Write :: "world \<Rightarrow> writer \<Rightarrow> Binary \<Rightarrow> world \<times> writer \<times> error option" where
  "Write s w bin =
     (let dir = filepath_Join [case UserHomeDir s of Inl e \<Rightarrow> [] | Inr h \<Rightarrow> h,
                               ''.cache'', ''gobinaries'', Module bin]
      in case UserHomeDir s of
           Inl err \<Rightarrow> (s, w, Some (Wrap ''user home dir'' err))
         | Inr h \<Rightarrow>
             (case install s bin dir of
                (s1, Some err) \<Rightarrow> (s1, w, Some (Wrap ''tidy module'' err))
              | (s1, None) \<Rightarrow>
                  (let dst = Walk_dst (files s1) dir
                   in case os_Open (files s1) dst of
                        Inl e \<Rightarrow> (s1, w, Some (Wrap ''opening'' (Errno e)))
                      | Inr f \<Rightarrow>
                          (case stat_fault s1 of
                             Some err \<Rightarrow> (s1, w, Some (Wrap ''stating'' err))
                           | None \<Rightarrow>
                               (if \<not> isExecutable (Mode f) then (s1, w, Some ErrNotExecutable)
                                else (case copy_to_writer w f of
                                        (w1, Some err) \<Rightarrow> (s1, w1, Some (Wrap ''copying'' err))
                                      | (w1, None) \<Rightarrow>
                                          (case close_fault s1 of
                                             Some err \<Rightarrow> (s1, w1, Some (Wrap ''closing'' err))
                                           | None \<Rightarrow>
                                               (case remove_fault s1 of
                                                  Some err \<Rightarrow> (s1, w1, Some (Wrap ''cleaning'' err))
                                                | None \<Rightarrow>
                                                    (case os_RemoveAll (files s1) dir of
                                                       (fs2, Some e) \<Rightarrow>
                                                         (s1\<lparr>files := fs2\<rparr>, w1,
                                                          Some (Wrap ''cleaning'' (Errno e)))
                                                     | (fs2, None) \<Rightarrow>
                                                         (s1\<lparr>files := fs2\<rparr>, w1, None))))))))))"

section \<open>Inputs and predicates of the statements\<close>

text \<open>A target of a module whose version has major version 3, for an ARM profile.\<close>

definition target_v3 :: Binary where
  "target_v3 = \<lparr>Path = ''example.com/tool/cmd/tool'', Module = ''example.com/tool'',
     Version = ''v3.1.0'', OS = ''linux'', Arch = ''armv7'', CGO = ''0''\<rparr>"

text \<open>The name of an entry of the process environment: what stands before its first \<open>=\<close>.\<close>

definition entry_name :: "string \<Rightarrow> string" where
  "entry_name v = takeWhile (\<lambda>c. c \<noteq> CHR ''='') v"

text \<open>
  An entry \<open>name=value\<close> whose value has no \<open>=\<close>, and the value a process environment
  gives to a name: what follows the \<open>=\<close> of the last entry with this name, and the empty
  string when there is none.
\<close>

definition simple_entry :: "string \<Rightarrow> bool" where
  "simple_entry v = (length (filter (\<lambda>c. c = CHR ''='') v) = 1)"

definition ambient_value :: "string list \<Rightarrow> string \<Rightarrow> string" where
  "ambient_value vs n =
     (case rev (filter (\<lambda>v. entry_name v = n) vs) of
        [] \<Rightarrow> []
      | v # _ \<Rightarrow> drop (Suc (length n)) v)"

text \<open>Two process environments that differ in variables outside the whitelist only.\<close>

definition ambient1 :: "string list" where
  "ambient1 = [''PATH=/usr/bin'', ''GITHUB_TOKEN=abc'', ''HOME=/root'']"

definition ambient2 :: "string list" where
  "ambient2 = [''PATH=/usr/bin'', ''GITHUB_TOKEN=xyz'', ''AWS_SECRET=s'', ''HOME=/root'']"

text \<open>
  The workspace directory of a build: \<open>.cache/gobinaries/<module>\<close> under the home
  directory, as \<open>filepath.Join\<close> gives it.
\<close>

definition workspace :: "world \<Rightarrow> Binary \<Rightarrow> string" where
  "workspace s bin =
     filepath_Join [case UserHomeDir s of Inl e \<Rightarrow> [] | Inr h \<Rightarrow> h,
                    ''.cache'', ''gobinaries'', Module bin]"

text \<open>
  A process environment that sets \<open>GOPATH\<close> and leaves \<open>PWD\<close>, \<open>GOLANG_VERSION\<close> and
  \<open>TMPDIR\<close> unset, and a world with the map \<open>init\<close> makes of it, in which the command
  started fails and prints the environment it was started with.
\<close>

definition ambient3 :: "string list" where
  "ambient3 = [''PATH=/usr/bin'', ''GOPATH=/go'', ''HOME=/root'']"

definition echo_world :: world where
  "echo_world = \<lparr>files = \<lparr>root = Directory 493 [], cwd = [], umask = 18\<rparr>,
     environMap = [''PATH'' \<mapsto> ''/usr/bin'', ''GOPATH'' \<mapsto> ''/go'', ''HOME'' \<mapsto> ''/root''],
     UserHomeDir = Inr ''/root'', look_fault = None,
     run = (\<lambda>cmd fs. (fs, Some (ErrString ''exit status 1''), strings_Join (Env cmd) '' '')),
     stat_fault = None, close_fault = None, remove_fault = None\<rparr>"

text \<open>The visits of the walk that set \<open>dst\<close>: no directory, and some execute bit.\<close>

definition has_exec_bit :: "string \<times> node \<Rightarrow> bool" where
  "has_exec_bit v = (\<not> IsDir (Mode (snd v)) \<and> Perm (Mode (snd v)) AND 73 \<noteq> 0)"

text \<open>
  A file system after a build of \<open>example.com/tool\<close> under the home directory \<open>/root\<close>: the
  workspace holds a source file (mode \<open>0444\<close>, 292) and two files with execute bits, \<open>bin/a\<close>
  (mode \<open>0755\<close>, 493) and \<open>bin/b\<close> (mode \<open>0744\<close>, 484). A second one after the build of a
  library: the source file only. One with \<open>bin/a\<close> (mode \<open>0700\<close>, 448) and \<open>bin/tool\<close>
  (mode \<open>0755\<close>), and one with \<open>bin/tool\<close> alone.
\<close>

definition under_workspace :: "(string \<times> node) list \<Rightarrow> node" where
  "under_workspace ents =
     Directory 493 [(''root'', Directory 493 [(''.cache'', Directory 493 [(''gobinaries'',
       Directory 493 [(''example.com'', Directory 493 [(''tool'', Directory 493 ents)])])])])]"

definition built_tree :: node where
  "built_tree = under_workspace
     [(''pkg'', Directory 493 [(''x.go'', File 292 [7])]),
      (''bin'', Directory 493 [(''b'', File 484 [1, 2, 3]), (''a'', File 493 [4, 5])])]"

definition library_tree :: node where
  "library_tree = under_workspace [(''pkg'', Directory 493 [(''x.go'', File 292 [7])])]"

definition two_tree :: node where
  "two_tree = under_workspace
     [(''pkg'', Directory 493 [(''x.go'', File 292 [7])]),
      (''bin'', Directory 493 [(''tool'', File 493 [4, 5]), (''a'', File 448 [9])])]"

definition binary_tree :: node where
  "binary_tree = under_workspace
     [(''pkg'', Directory 493 [(''x.go'', File 292 [7])]),
      (''bin'', Directory 493 [(''tool'', File 493 [4, 5])])]"

text \<open>
  Worlds whose toolchain succeeds and leaves one of these trees, on a file system that was
  empty, with the home directory \<open>/root\<close>, the mask \<open>022\<close> (18) and no fault.
\<close>

definition world_with :: "node \<Rightarrow> world" where
  "world_with t = \<lparr>files = \<lparr>root = Directory 493 [], cwd = [], umask = 18\<rparr>,
     environMap = Map.empty, UserHomeDir = Inr ''/root'', look_fault = None,
     run = (\<lambda>cmd fs. (fs\<lparr>root := t\<rparr>, None, [])),
     stat_fault = None, close_fault = None, remove_fault = None\<rparr>"

text \<open>A writer that accepts everything, and one that accepts nothing.\<close>

definition writer0 :: writer where
  "writer0 = \<lparr>written = [], room = None\<rparr>"

definition writer_full :: writer where
  "writer_full = \<lparr>written = [], room = Some 0\<rparr>"

text \<open>
  The store of the server (no root, prefix \<open>production\<close>), a target, the empty file system,
  a reader that delivers three bytes in two chunks, and one that fails after the first
  chunk.
\<close>

definition store0 :: Local where
  "store0 = \<lparr>Root = [], Prefix = ''production''\<rparr>"

definition target_a :: Binary where
  "target_a = \<lparr>Path = ''example.com/tool'', Module = ''example.com/tool'',
     Version = ''v1.2.0'', OS = ''linux'', Arch = ''amd64'', CGO = ''0''\<rparr>"

definition empty_fs :: filesys where
  "empty_fs = \<lparr>root = Directory 493 [], cwd = [], umask = 18\<rparr>"

definition reader_whole :: reader where
  "reader_whole = \<lparr>chunks = [[1, 2], [3]], fails = None\<rparr>"

definition reader_broken :: reader where
  "reader_broken = \<lparr>chunks = [[1, 2]], fails = Some (ErrString ''unexpected EOF'')\<rparr>"

text \<open>
  A path element that \<open>filepath.Clean\<close> keeps as it is, and a target whose fields give such
  elements: the package path is not empty, \<open>.\<close> or \<open>..\<close>, and no other field of the key has a
  separator. \<open>key_dir\<close> and \<open>key_file\<close> are the two elements \<open>getKey\<close> forms from the target.
\<close>

definition plain_element :: "string \<Rightarrow> bool" where
  "plain_element e = (e \<noteq> [] \<and> e \<noteq> ''.'' \<and> e \<noteq> ''..'' \<and> CHR ''/'' \<notin> set e)"

definition key_dir :: "Binary \<Rightarrow> string" where
  "key_dir bin = strings_Replace (Path bin) (CHR ''/'') (CHR ''-'')"

definition key_file :: "Binary \<Rightarrow> string" where
  "key_file bin = Version bin @ ''-'' @ OS bin @ ''-'' @ Arch bin @ ''-'' @ CGO bin"

definition plain_target :: "Binary \<Rightarrow> bool" where
  "plain_target bin =
     (Path bin \<noteq> [] \<and> Path bin \<noteq> ''.'' \<and> Path bin \<noteq> ''..''
      \<and> CHR ''/'' \<notin> set (Version bin) \<and> CHR ''/'' \<notin> set (OS bin)
      \<and> CHR ''/'' \<notin> set (Arch bin) \<and> CHR ''/'' \<notin> set (CGO bin))"

text \<open>
  A tree as a file system holds it: in every directory the names of the entries are
  distinct, and each is a name (not empty, not \<open>.\<close> or \<open>..\<close>, without separator).
\<close>

function wf_node :: "node \<Rightarrow> bool" where
  "wf_node (File p b) = True"
| "wf_node (Directory p ents) =
     (distinct (map fst ents) \<and> (\<forall>x \<in> set ents. plain_element (fst x) \<and> wf_node (snd x)))"
  by pat_completeness auto
termination
proof (relation "measure size")
  show "wf (measure size)"
    by simp
next
  fix p :: FileMode and ents :: "(string \<times> node) list" and x :: "string \<times> node"
  assume "x \<in> set ents"
  then have "size (snd x) < Suc (size_list (size_prod (\<lambda>_. 0) size) ents)"
    by (induction ents) auto
  then show "(snd x, Directory p ents) \<in> measure size"
    by simp
qed

text \<open>The separator of the file name of the key occurs in none of the fields around it.\<close>

definition dash_free_target :: "Binary \<Rightarrow> bool" where
  "dash_free_target bin =
     (CHR ''-'' \<notin> set (Path bin) \<and> CHR ''-'' \<notin> set (OS bin)
      \<and> CHR ''-'' \<notin> set (Arch bin) \<and> CHR ''-'' \<notin> set (CGO bin))"

text \<open>A string that is empty or ends in a separator: a directory prefix.\<close>

definition dir_prefix :: "string \<Rightarrow> bool" where
  "dir_prefix x = (x = [] \<or> last x = CHR ''/'')"

text \<open>
  The directory prefix of a cleaned path: the root mark and the elements, each followed by
  a separator.
\<close>

definition clean_prefix :: "string \<Rightarrow> string" where
  "clean_prefix x =
     (if x \<noteq> [] \<and> hd x = CHR ''/'' then ''/'' else [])
     @ (if clean_elems x = [] then [] else strings_Join (clean_elems x) ''/'' @ ''/'')"

text \<open>
  Targets whose package paths differ in a separator, and targets whose versions and
  platforms differ in where the dash stands.
\<close>

definition target_b :: Binary where
  "target_b = \<lparr>Path = ''github.com/a/b-c'', Module = ''github.com/a/b-c'',
     Version = ''v1.2.0'', OS = ''linux'', Arch = ''amd64'', CGO = ''0''\<rparr>"

definition target_c :: Binary where
  "target_c = \<lparr>Path = ''github.com/a/b/c'', Module = ''github.com/a/b/c'',
     Version = ''v1.2.0'', OS = ''linux'', Arch = ''amd64'', CGO = ''0''\<rparr>"

definition target_d :: Binary where
  "target_d = \<lparr>Path = ''example.com/tool'', Module = ''example.com/tool'',
     Version = ''v1.0.0-rc1'', OS = ''linux'', Arch = ''amd64'', CGO = ''0''\<rparr>"

definition target_e :: Binary where
  "target_e = \<lparr>Path = ''example.com/tool'', Module = ''example.com/tool'',
     Version = ''v1.0.0'', OS = ''rc1-linux'', Arch = ''amd64'', CGO = ''0''\<rparr>"

text \<open>
  What holds of the elements \<open>filepath.Clean\<close> has written: none is empty or \<open>.\<close>, none has
  a separator, and in a rooted path none is \<open>..\<close>.
\<close>

definition stack_ok :: "bool \<Rightarrow> string list \<Rightarrow> bool" where
  "stack_ok r S = (\<forall>e \<in> set S. e \<noteq> [] \<and> e \<noteq> ''.'' \<and> CHR ''/'' \<notin> set e \<and> (r \<longrightarrow> e \<noteq> ''..''))"

text \<open>
  The path of the object of a plain target is a directory prefix that depends on the store
  only, followed by the two elements of the key. A sequence of \<open>Create\<close> calls on a store,
  each with its reader and target, whether they fail or not.
\<close>

definition path_prefix :: "Local \<Rightarrow> string" where
  "path_prefix l =
     clean_prefix (if Root l = [] then clean_prefix (Prefix l @ ''/'')
                   else Root l @ ''/'' @ clean_prefix (Prefix l @ ''/''))"

text \<open>
  A path that no system call refuses, for a process with the given working directory: it
  has no NUL byte and less than 4096 bytes, and none of the elements it resolves to has
  more than 255 bytes.
\<close>

definition valid_path :: "string list \<Rightarrow> string \<Rightarrow> bool" where
  "valid_path wd path =
     (path_error path = None \<and> (\<forall>e \<in> set (resolve wd path). name_error e = None))"

definition creates :: "Local \<Rightarrow> filesys \<Rightarrow> (reader \<times> Binary) list \<Rightarrow> filesys" where
  "creates l fs ops = foldl (\<lambda>fs' (r, bin). fst (Local_Create l fs' r bin)) fs ops"

section \<open>The install command\<close>

lemma environ_eq:
  "environ m = map (\<lambda>name. name @ ''='' @ map_get m name) environWhitelist"
  by (simp add: environ_def environWhitelist_def)

text \<open>
  C1. The claim: for a target whose version has major version 2 or more, the module
  argument of the install step carries the suffix \<open>/v<major>\<close> before the version pin.
  The code: \<open>install\<close> passes \<open><module>/...@<version>\<close> for every target, whatever the major
  version; only \<open>normalizeModuleDep\<close>, which \<open>install\<close> does not call, adds the suffix. For
  module \<open>example.com/tool\<close> at \<open>v3.1.0\<close> the major version is 3, \<open>normalizeModuleDep\<close>
  gives \<open>example.com/tool/v3@v3.1.0\<close>, and the install argument is
  \<open>example.com/tool/...@v3.1.0\<close>.
\<close>

theorem install_module_argument:
  "last (Args (install_cmd m home bin dir)) = Module bin @ ''/...@'' @ Version bin
   \<and> getMajorVersion (Version target_v3) = Some 3
   \<and> normalizeModuleDep target_v3 = ''example.com/tool/v3@v3.1.0''
   \<and> last (Args (install_cmd m home target_v3 dir)) = ''example.com/tool/...@v3.1.0''"
proof -
  have a: "last (Args (install_cmd m home b dir)) = Module b @ ''/...@'' @ Version b" for b
    by (simp add: install_cmd_def Let_def)
  have b: "getMajorVersion (Version target_v3) = Some 3"
    by (simp add: target_v3_def getMajorVersion_def strconv_Atoi_def digit_of_def)
  have c: "normalizeModuleDep target_v3 = ''example.com/tool/v3@v3.1.0''"
    using b by (simp add: normalizeModuleDep_def Let_def show_int_def show_nat.simps target_v3_def)
  have d: "last (Args (install_cmd m home target_v3 dir)) = ''example.com/tool/...@v3.1.0''"
    by (simp add: a) (simp add: target_v3_def)
  from a b c d show ?thesis by blast
qed

subsection \<open>The environment of the subprocess\<close>

lemma strings_Split_hd:
  "\<exists>rest. strings_Split v sep = takeWhile (\<lambda>c. c \<noteq> sep) v # rest"
  by (induction v) (auto split: list.splits)

text \<open>The value the map holds for a name is that of the last entry with this name.\<close>

lemma init_lookup:
  "init vs m = Some m' \<Longrightarrow>
   m' n = (case rev (filter (\<lambda>v. entry_name v = n) vs) of
             [] \<Rightarrow> m n
           | v # _ \<Rightarrow> Some (strings_Split v (CHR ''='') ! 1))"
proof (induction vs arbitrary: m)
  case Nil
  then show ?case by simp
next
  case (Cons v vs)
  from strings_Split_hd [of v "CHR ''=''"] obtain rest where
    sp: "strings_Split v (CHR ''='') = entry_name v # rest"
    by (auto simp: entry_name_def)
  with Cons.prems obtain p1 rest' where r: "rest = p1 # rest'"
    and i: "init vs (m(entry_name v \<mapsto> p1)) = Some m'"
    by (auto split: list.splits)
  show ?case
    using Cons.IH [OF i] sp r
    by (auto split: list.splits)
qed

lemma init_whitelisted:
  assumes "init vs Map.empty = Some m" and "init vs' Map.empty = Some m'"
    and "filter (\<lambda>v. entry_name v \<in> set environWhitelist) vs
         = filter (\<lambda>v. entry_name v \<in> set environWhitelist) vs'"
    and "n \<in> set environWhitelist"
  shows "m n = m' n"
proof -
  have f: "filter (\<lambda>v. entry_name v = n) xs
        = filter (\<lambda>v. entry_name v = n) (filter (\<lambda>v. entry_name v \<in> set environWhitelist) xs)" for xs
    using assms(4) by (induction xs) auto
  have "filter (\<lambda>v. entry_name v = n) vs = filter (\<lambda>v. entry_name v = n) vs'"
    using f [of vs] f [of vs'] assms(3) by simp
  then show ?thesis
    using init_lookup [OF assms(1), of n] init_lookup [OF assms(2), of n] by simp
qed

text \<open>For an entry with one \<open>=\<close>, field 1 is all that follows the name.\<close>

lemma strings_Split_none:
  "filter (\<lambda>c. c = sep) v = [] \<Longrightarrow> strings_Split v sep = [v]"
  by (induction v) (auto split: if_splits)

lemma strings_Split_one:
  "length (filter (\<lambda>c. c = sep) v) = 1 \<Longrightarrow>
   strings_Split v sep
     = [takeWhile (\<lambda>c. c \<noteq> sep) v, drop (Suc (length (takeWhile (\<lambda>c. c \<noteq> sep) v))) v]"
  by (induction v) (auto simp: strings_Split_none split: if_splits)

lemma init_value:
  assumes "init vs Map.empty = Some m"
    and "\<forall>v \<in> set vs. entry_name v = n \<longrightarrow> simple_entry v"
  shows "map_get m n = ambient_value vs n"
proof (cases "rev (filter (\<lambda>v. entry_name v = n) vs)")
  case Nil
  with init_lookup [OF assms(1), of n] show ?thesis
    by (simp add: map_get_def ambient_value_def)
next
  case (Cons v rest)
  then have "v \<in> set (filter (\<lambda>v. entry_name v = n) vs)"
    by (metis list.set_intros(1) set_rev)
  with assms(2) have n: "entry_name v = n" and "simple_entry v"
    by auto
  then have "strings_Split v (CHR ''='') ! 1 = drop (Suc (length n)) v"
    using strings_Split_one [of "CHR ''=''" v] by (simp add: simple_entry_def entry_name_def)
  with init_lookup [OF assms(1), of n] Cons show ?thesis
    by (simp add: map_get_def ambient_value_def)
qed

text \<open>What \<open>os/exec\<close> makes of the environment list of the install command.\<close>

lemma exec_environ_install:
  assumes "\<forall>kv \<in> set (Env (install_cmd m home bin dir)). CHR 0x00 \<notin> set kv"
  shows "exec_environ (Env (install_cmd m home bin dir)) =
     Inr ([''PATH='' @ map_get m ''PATH'', ''HOME='' @ map_get m ''HOME'',
           ''PWD='' @ map_get m ''PWD'', ''GOLANG_VERSION='' @ map_get m ''GOLANG_VERSION'',
           ''TMPDIR='' @ map_get m ''TMPDIR'',
           ''GOPATH='' @ dir, ''CGO_ENABLED='' @ CGO bin, ''GOOS='' @ OS bin]
          @ (if strings_HasPrefix (Arch bin) ''armv''
             then [''GOARCH=arm'', ''GOARM='' @ strings_TrimPrefix (Arch bin) ''armv'']
             else [''GOARCH='' @ Arch bin]))"
proof -
  have "rev (dedupEnv (rev (Env (install_cmd m home bin dir))) []) =
     [''PATH='' @ map_get m ''PATH'', ''HOME='' @ map_get m ''HOME'',
           ''PWD='' @ map_get m ''PWD'', ''GOLANG_VERSION='' @ map_get m ''GOLANG_VERSION'',
           ''TMPDIR='' @ map_get m ''TMPDIR'',
           ''GOPATH='' @ dir, ''CGO_ENABLED='' @ CGO bin, ''GOOS='' @ OS bin]
          @ (if strings_HasPrefix (Arch bin) ''armv''
             then [''GOARCH=arm'', ''GOARM='' @ strings_TrimPrefix (Arch bin) ''armv'']
             else [''GOARCH='' @ Arch bin])"
    by (simp add: install_cmd_def Let_def environ_eq environWhitelist_def env_key_def)
  with assms show ?thesis
    by (simp add: exec_environ_def)
qed

lemma strings_TrimSpace_empty: "strings_TrimSpace [] = []"
  by code_simp

lemma ambient_value_set:
  "\<forall>v \<in> set vs. c \<notin> set v \<Longrightarrow> c \<notin> set (ambient_value vs n)"
proof (cases "rev (filter (\<lambda>v. entry_name v = n) vs)")
  case Nil
  then show ?thesis
    by (simp add: ambient_value_def)
next
  case (Cons v rest)
  assume a: "\<forall>v \<in> set vs. c \<notin> set v"
  from Cons have "v \<in> set (filter (\<lambda>v. entry_name v = n) vs)"
    by (metis list.set_intros(1) set_rev)
  with a have "c \<notin> set v"
    by simp
  then have "c \<notin> set (drop (Suc (length n)) v)"
    by (auto dest: in_set_dropD)
  with Cons show ?thesis
    by (simp add: ambient_value_def)
qed

text \<open>A NUL byte in the workspace directory or in a field of the target is one in the list.\<close>

lemma install_cmd_NUL:
  assumes "CHR 0x00 \<in> set dir \<union> set (CGO bin) \<union> set (OS bin) \<union> set (Arch bin)"
  shows "\<exists>kv \<in> set (Env (install_cmd m home bin dir)). CHR 0x00 \<in> set kv"
proof -
  have "c \<in> set (strings_TrimPrefix a p)"
    if "c \<in> set a" and "strings_HasPrefix a p" and "c \<notin> set p" for c :: char and a p
  proof -
    from that(1) have "c \<in> set (take (length p) a @ drop (length p) a)"
      by simp
    with that(2,3) show ?thesis
      unfolding strings_HasPrefix_def strings_TrimPrefix_def by auto
  qed
  from this [of "CHR 0x00" "Arch bin" "''armv''"] assms show ?thesis
    by (auto simp: install_cmd_def Let_def)
qed

lemma strings_TrimPrefix_set: "c \<notin> set a \<Longrightarrow> c \<notin> set (strings_TrimPrefix a p)"
  by (auto simp: strings_TrimPrefix_def dest: in_set_dropD)

text \<open>
  C6, as stated, fails: the claim is that the environment of the install subprocess
  consists of the six whitelisted variables of the process environment and of \<open>GOPATH\<close>
  set to the workspace directory, \<open>CGO_ENABLED\<close>, \<open>GOOS\<close> and \<open>GOARCH\<close>. In a process
  environment with \<open>PATH\<close>, \<open>GOPATH=/go\<close> and \<open>HOME\<close>, the command list of \<open>install\<close> has eleven
  entries, with \<open>GOPATH\<close> twice, and the subprocess is started with ten: \<open>GOPATH=/go\<close> is not
  among them, and \<open>PWD\<close>, \<open>GOLANG_VERSION\<close> and \<open>TMPDIR\<close>, which the process environment
  does not have, are passed as empty. The subprocess of the example prints its
  environment, which \<open>install\<close> returns in its error.
\<close>

theorem install_drops_ambient_GOPATH:
  "init ambient3 Map.empty = Some (environMap echo_world)
   \<and> length (Env (install_cmd (environMap echo_world) ''/root'' target_v3 ''/w'')) = 11
   \<and> install echo_world target_v3 ''/w''
     = (echo_world, Some (BuildError (ErrString ''exit status 1'')
         ''PATH=/usr/bin HOME=/root PWD= GOLANG_VERSION= TMPDIR= GOPATH=/w CGO_ENABLED=0 GOOS=linux GOARCH=arm GOARM=7''))"
proof -
  have a: "init ambient3 Map.empty = Some (environMap echo_world)"
    by (simp add: ambient3_def echo_world_def)
  have b: "length (Env (install_cmd (environMap echo_world) ''/root'' target_v3 ''/w'')) = 11"
    by (simp add: install_cmd_def Let_def environ_eq environWhitelist_def target_v3_def
        strings_HasPrefix_def)
  have c: "exec_environ (Env (install_cmd (environMap echo_world) ''/root'' target_v3 ''/w''))
      = Inr [''PATH=/usr/bin'', ''HOME=/root'', ''PWD='', ''GOLANG_VERSION='', ''TMPDIR='',
             ''GOPATH=/w'', ''CGO_ENABLED=0'', ''GOOS=linux'', ''GOARCH=arm'', ''GOARM=7'']"
    by code_simp
  have d: "strings_TrimSpace
      ''PATH=/usr/bin HOME=/root PWD= GOLANG_VERSION= TMPDIR= GOPATH=/w CGO_ENABLED=0 GOOS=linux GOARCH=arm GOARM=7''
      = ''PATH=/usr/bin HOME=/root PWD= GOLANG_VERSION= TMPDIR= GOPATH=/w CGO_ENABLED=0 GOOS=linux GOARCH=arm GOARM=7''"
    by code_simp
  have "install echo_world target_v3 ''/w''
     = (echo_world, Some (BuildError (ErrString ''exit status 1'')
         ''PATH=/usr/bin HOME=/root PWD= GOLANG_VERSION= TMPDIR= GOPATH=/w CGO_ENABLED=0 GOOS=linux GOARCH=arm GOARM=7''))"
    using c d by (simp add: install_def command_def) (simp add: echo_world_def)
  with a b show ?thesis
    by blast
qed

text \<open>
  C6, amended. For a process environment in which the entries of the whitelisted names
  have one \<open>=\<close> each and no entry has a NUL byte, and a workspace directory and a target
  without NUL byte: \<open>install\<close> runs the toolchain with exactly one entry for each of
  \<open>PATH\<close>, \<open>HOME\<close>, \<open>PWD\<close>, \<open>GOLANG_VERSION\<close> and \<open>TMPDIR\<close>, with the value of the process
  environment (empty for a name it does not have), then \<open>GOPATH\<close> set to the workspace
  directory (the value of the process environment for \<open>GOPATH\<close> is not passed),
  \<open>CGO_ENABLED\<close>, \<open>GOOS\<close> and \<open>GOARCH\<close>; for an architecture \<open>armv<n>\<close> the last is
  \<open>GOARCH=arm\<close> followed by \<open>GOARM=<n>\<close>. With a NUL byte in the workspace directory or in
  one of these fields of the target the toolchain is not started. Two process environments
  that agree on their entries for whitelisted names, whatever their other entries, give
  the same run of \<open>install\<close>.
\<close>

theorem install_subprocess_environment:
  "(init vs Map.empty = Some (environMap s) \<longrightarrow>
    (\<forall>v \<in> set vs. entry_name v \<in> set environWhitelist \<longrightarrow> simple_entry v) \<longrightarrow>
    (\<forall>v \<in> set vs. CHR 0x00 \<notin> set v) \<longrightarrow>
    CHR 0x00 \<notin> set dir \<union> set (CGO bin) \<union> set (OS bin) \<union> set (Arch bin) \<longrightarrow>
    look_fault s = None \<longrightarrow>
    install s bin dir =
      (case run s
         \<lparr>Args = [''go'', ''install'', ''-trimpath'', ''-ldflags'',
                  ''-s -w -X main.version='' @ Version bin,
                  Module bin @ ''/...@'' @ Version bin],
          Env = [''PATH='' @ ambient_value vs ''PATH'', ''HOME='' @ ambient_value vs ''HOME'',
                 ''PWD='' @ ambient_value vs ''PWD'',
                 ''GOLANG_VERSION='' @ ambient_value vs ''GOLANG_VERSION'',
                 ''TMPDIR='' @ ambient_value vs ''TMPDIR'',
                 ''GOPATH='' @ dir, ''CGO_ENABLED='' @ CGO bin, ''GOOS='' @ OS bin]
                @ (if strings_HasPrefix (Arch bin) ''armv''
                   then [''GOARCH=arm'', ''GOARM='' @ strings_TrimPrefix (Arch bin) ''armv'']
                   else [''GOARCH='' @ Arch bin]),
          Dir = (case UserHomeDir s of Inl e \<Rightarrow> [] | Inr h \<Rightarrow> h)\<rparr>
         (files s) of
         (fs', err, stderr) \<Rightarrow>
           (s\<lparr>files := fs'\<rparr>, map_option (\<lambda>e. BuildError e (strings_TrimSpace stderr)) err)))
   \<and> (CHR 0x00 \<in> set dir \<union> set (CGO bin) \<union> set (OS bin) \<union> set (Arch bin) \<longrightarrow>
        look_fault s = None \<longrightarrow>
        install s bin dir
          = (s, Some (BuildError (ErrString ''exec: environment variable contains NUL'') [])))
   \<and> (init vs Map.empty = Some (environMap s) \<longrightarrow> init vs' Map.empty = Some m' \<longrightarrow>
        filter (\<lambda>v. entry_name v \<in> set environWhitelist) vs
          = filter (\<lambda>v. entry_name v \<in> set environWhitelist) vs' \<longrightarrow>
        install (s\<lparr>environMap := m'\<rparr>) bin dir
          = (case install s bin dir of (s1, e) \<Rightarrow> (s1\<lparr>environMap := m'\<rparr>, e)))"
proof (intro conjI impI)
  let ?home = "case UserHomeDir s of Inl e \<Rightarrow> [] | Inr h \<Rightarrow> h"
  let ?E = "[''PATH='' @ ambient_value vs ''PATH'', ''HOME='' @ ambient_value vs ''HOME'',
                 ''PWD='' @ ambient_value vs ''PWD'',
                 ''GOLANG_VERSION='' @ ambient_value vs ''GOLANG_VERSION'',
                 ''TMPDIR='' @ ambient_value vs ''TMPDIR'',
                 ''GOPATH='' @ dir, ''CGO_ENABLED='' @ CGO bin, ''GOOS='' @ OS bin]
                @ (if strings_HasPrefix (Arch bin) ''armv''
                   then [''GOARCH=arm'', ''GOARM='' @ strings_TrimPrefix (Arch bin) ''armv'']
                   else [''GOARCH='' @ Arch bin])"
  let ?C = "\<lparr>Args = [''go'', ''install'', ''-trimpath'', ''-ldflags'',
                  ''-s -w -X main.version='' @ Version bin,
                  Module bin @ ''/...@'' @ Version bin],
          Env = ?E, Dir = ?home\<rparr>"
  assume i: "init vs Map.empty = Some (environMap s)"
    and se: "\<forall>v \<in> set vs. entry_name v \<in> set environWhitelist \<longrightarrow> simple_entry v"
    and nv: "\<forall>v \<in> set vs. CHR 0x00 \<notin> set v"
    and nb: "CHR 0x00 \<notin> set dir \<union> set (CGO bin) \<union> set (OS bin) \<union> set (Arch bin)"
    and lf: "look_fault s = None"
  have val: "map_get (environMap s) n = ambient_value vs n" if "n \<in> set environWhitelist" for n
    using init_value [OF i, of n] se that by blast
  note vals = val [of "''PATH''"] val [of "''HOME''"] val [of "''PWD''"] val [of "''GOPATH''"]
    val [of "''GOLANG_VERSION''"] val [of "''TMPDIR''"]
  have av: "CHR 0x00 \<notin> set (ambient_value vs n)" for n
    using nv by (rule ambient_value_set)
  have "CHR 0x00 \<notin> set (strings_TrimPrefix (Arch bin) ''armv'')"
    using nb by (simp add: strings_TrimPrefix_set)
  with nb av have nul: "\<forall>kv \<in> set (Env (install_cmd (environMap s) ?home bin dir)). CHR 0x00 \<notin> set kv"
    using vals
    by (simp add: install_cmd_def Let_def environ_eq environWhitelist_def)
  define E where "E = ?E"
  define C0 where "C0 = install_cmd (environMap s) ?home bin dir"
  have e: "exec_environ (Env C0) = Inr E"
    unfolding C0_def E_def
    using exec_environ_install [OF nul] vals by (simp add: environWhitelist_def)
  have c: "C0\<lparr>Env := E\<rparr> = ?C"
    unfolding C0_def E_def by (simp add: install_cmd_def Let_def)
  obtain fs' err stderr where r: "run s (C0\<lparr>Env := E\<rparr>) (files s) = (fs', err, stderr)"
    by (cases "run s (C0\<lparr>Env := E\<rparr>) (files s)")
  have "install s bin dir
      = (s\<lparr>files := fs'\<rparr>, map_option (\<lambda>e. BuildError e (strings_TrimSpace stderr)) err)"
    unfolding install_def C0_def [symmetric]
    using lf e r by (cases err) (simp_all add: command_def)
  moreover from r have "run s ?C (files s) = (fs', err, stderr)"
    unfolding c .
  ultimately show "install s bin dir =
      (case run s ?C (files s) of
         (fs', err, stderr) \<Rightarrow>
           (s\<lparr>files := fs'\<rparr>, map_option (\<lambda>e. BuildError e (strings_TrimSpace stderr)) err))"
    by (simp del: append.simps)
next
  assume "CHR 0x00 \<in> set dir \<union> set (CGO bin) \<union> set (OS bin) \<union> set (Arch bin)"
    and lf: "look_fault s = None"
  from install_cmd_NUL [OF this(1)]
  have "exec_environ (Env (install_cmd (environMap s)
          (case UserHomeDir s of Inl e \<Rightarrow> [] | Inr h \<Rightarrow> h) bin dir))
        = Inl (ErrString ''exec: environment variable contains NUL'')"
    by (simp add: exec_environ_def)
  then show "install s bin dir
          = (s, Some (BuildError (ErrString ''exec: environment variable contains NUL'') []))"
    by (simp add: install_def command_def lf strings_TrimSpace_empty)
next
  assume i: "init vs Map.empty = Some (environMap s)" "init vs' Map.empty = Some m'"
    and f: "filter (\<lambda>v. entry_name v \<in> set environWhitelist) vs
          = filter (\<lambda>v. entry_name v \<in> set environWhitelist) vs'"
  have "map_get (environMap s) n = map_get m' n" if "n \<in> set environWhitelist" for n
    using init_whitelisted [OF i f that] by (simp add: map_get_def)
  then have "environ (environMap s) = environ m'"
    by (simp add: environ_eq)
  then have "install_cmd m' home bin dir = install_cmd (environMap s) home bin dir" for home
    by (simp add: install_cmd_def Let_def)
  then show "install (s\<lparr>environMap := m'\<rparr>) bin dir
          = (case install s bin dir of (s1, e) \<Rightarrow> (s1\<lparr>environMap := m'\<rparr>, e))"
    by (simp add: install_def command_def split: option.splits sum.splits prod.splits)
qed

theorem install_subprocess_environment_witness:
  "install echo_world target_a ''/w''
     = (echo_world, Some (BuildError (ErrString ''exit status 1'')
         ''PATH=/usr/bin HOME=/root PWD= GOLANG_VERSION= TMPDIR= GOPATH=/w CGO_ENABLED=0 GOOS=linux GOARCH=amd64''))
   \<and> install echo_world (target_a\<lparr>CGO := [CHR 0x00]\<rparr>) ''/w''
     = (echo_world, Some (BuildError (ErrString ''exec: environment variable contains NUL'') []))
   \<and> init (ambient3 @ [''SECRET=x'']) Map.empty
     = Some ((environMap echo_world)(''SECRET'' \<mapsto> ''x''))
   \<and> install (echo_world\<lparr>environMap := (environMap echo_world)(''SECRET'' \<mapsto> ''x'')\<rparr>) target_a ''/w''
     = (echo_world\<lparr>environMap := (environMap echo_world)(''SECRET'' \<mapsto> ''x'')\<rparr>,
        Some (BuildError (ErrString ''exit status 1'')
         ''PATH=/usr/bin HOME=/root PWD= GOLANG_VERSION= TMPDIR= GOPATH=/w CGO_ENABLED=0 GOOS=linux GOARCH=amd64''))"
proof -
  let ?m' = "(environMap echo_world)(''SECRET'' \<mapsto> ''x'')"
  have i: "init ambient3 Map.empty = Some (environMap echo_world)"
    by (simp add: ambient3_def echo_world_def)
  have i': "init (ambient3 @ [''SECRET=x'']) Map.empty = Some ?m'"
    by (simp add: ambient3_def echo_world_def)
  have se: "\<forall>v \<in> set ambient3. entry_name v \<in> set environWhitelist \<longrightarrow> simple_entry v"
    by (simp add: ambient3_def simple_entry_def)
  have nv: "\<forall>v \<in> set ambient3. CHR 0x00 \<notin> set v"
    by (simp add: ambient3_def)
  have nb: "CHR 0x00 \<notin> set ''/w'' \<union> set (CGO target_a) \<union> set (OS target_a) \<union> set (Arch target_a)"
    by (simp add: target_a_def)
  have lf: "look_fault echo_world = None"
    by (simp add: echo_world_def)
  have f: "filter (\<lambda>v. entry_name v \<in> set environWhitelist) ambient3
         = filter (\<lambda>v. entry_name v \<in> set environWhitelist) (ambient3 @ [''SECRET=x''])"
    by (simp add: ambient3_def entry_name_def environWhitelist_def)
  have av: "ambient_value ambient3 ''PATH'' = ''/usr/bin''" "ambient_value ambient3 ''HOME'' = ''/root''"
    "ambient_value ambient3 ''PWD'' = []" "ambient_value ambient3 ''GOLANG_VERSION'' = []"
    "ambient_value ambient3 ''TMPDIR'' = []"
    by (simp_all add: ambient_value_def ambient3_def entry_name_def)
  have d: "strings_TrimSpace
      ''PATH=/usr/bin HOME=/root PWD= GOLANG_VERSION= TMPDIR= GOPATH=/w CGO_ENABLED=0 GOOS=linux GOARCH=amd64''
      = ''PATH=/usr/bin HOME=/root PWD= GOLANG_VERSION= TMPDIR= GOPATH=/w CGO_ENABLED=0 GOOS=linux GOARCH=amd64''"
    by code_simp
  note t = install_subprocess_environment [of ambient3 echo_world "''/w''" target_a
      "ambient3 @ [''SECRET=x'']" ?m']
  from t i se nv nb lf
  have a: "install echo_world target_a ''/w''
     = (echo_world, Some (BuildError (ErrString ''exit status 1'')
         ''PATH=/usr/bin HOME=/root PWD= GOLANG_VERSION= TMPDIR= GOPATH=/w CGO_ENABLED=0 GOOS=linux GOARCH=amd64''))"
    by (simp add: av d) (simp add: echo_world_def target_a_def strings_HasPrefix_def d)
  from t i i' f
  have "install (echo_world\<lparr>environMap := ?m'\<rparr>) target_a ''/w''
          = (case install echo_world target_a ''/w'' of (s1, e) \<Rightarrow> (s1\<lparr>environMap := ?m'\<rparr>, e))"
    by blast
  then have b: "install (echo_world\<lparr>environMap := ?m'\<rparr>) target_a ''/w''
     = (echo_world\<lparr>environMap := ?m'\<rparr>,
        Some (BuildError (ErrString ''exit status 1'')
         ''PATH=/usr/bin HOME=/root PWD= GOLANG_VERSION= TMPDIR= GOPATH=/w CGO_ENABLED=0 GOOS=linux GOARCH=amd64''))"
    unfolding a by simp
  have "CHR 0x00 \<in> set ''/w'' \<union> set (CGO (target_a\<lparr>CGO := [CHR 0x00]\<rparr>))
      \<union> set (OS (target_a\<lparr>CGO := [CHR 0x00]\<rparr>)) \<union> set (Arch (target_a\<lparr>CGO := [CHR 0x00]\<rparr>))"
    by simp
  with install_subprocess_environment [of _ echo_world "''/w''" "target_a\<lparr>CGO := [CHR 0x00]\<rparr>"] lf
  have c: "install echo_world (target_a\<lparr>CGO := [CHR 0x00]\<rparr>) ''/w''
     = (echo_world, Some (BuildError (ErrString ''exec: environment variable contains NUL'') []))"
    by blast
  from a b c i' show ?thesis
    by blast
qed

section \<open>Writing a binary\<close>

lemma IsDir_File: "\<not> IsDir (Mode (File p b))"
proof -
  have "(511 :: 32 word) AND push_bit 31 1 = 0"
    by simp
  then have "(p AND 511) AND (push_bit 31 1 :: 32 word) = 0"
    by (simp add: and.assoc)
  then show ?thesis
    by (simp add: IsDir_def Perm_def ModeDir_def)
qed

lemma IsDir_Directory: "IsDir (Mode (Directory p e))"
proof -
  have "bit ((push_bit 31 1 OR (p AND 511)) AND (push_bit 31 1 :: 32 word)) 31"
    by (simp add: bit_simps)
  then have "(push_bit 31 1 OR (p AND 511)) AND (push_bit 31 1 :: 32 word) \<noteq> 0"
    by force
  then show ?thesis
    by (simp add: IsDir_def Perm_def ModeDir_def)
qed

lemma command_keeps:
  "command s cmd = (s1, e) \<Longrightarrow>
   UserHomeDir s1 = UserHomeDir s \<and> environMap s1 = environMap s \<and> run s1 = run s
   \<and> look_fault s1 = look_fault s
   \<and> stat_fault s1 = stat_fault s \<and> close_fault s1 = close_fault s
   \<and> remove_fault s1 = remove_fault s"
  by (auto simp: command_def split: prod.splits option.splits sum.splits)

lemma install_keeps_home: "UserHomeDir (fst (install s bin dir)) = UserHomeDir s"
  by (cases "install s bin dir") (auto simp: install_def dest: command_keeps)

text \<open>The ways \<open>Write\<close> returns, in the order of its checks.\<close>

lemma Write_outcome:
  obtains
    (home) err where "UserHomeDir s = Inl err"
      and "Write s w bin = (s, w, Some (Wrap ''user home dir'' err))"
  | (tidy) h s1 err where "UserHomeDir s = Inr h"
      and "install s bin (workspace s bin) = (s1, Some err)"
      and "Write s w bin = (s1, w, Some (Wrap ''tidy module'' err))"
  | (open_failed) h s1 e where "UserHomeDir s = Inr h"
      and "install s bin (workspace s bin) = (s1, None)"
      and "os_Open (files s1) (Walk_dst (files s1) (workspace s bin)) = Inl e"
      and "Write s w bin = (s1, w, Some (Wrap ''opening'' (Errno e)))"
  | (stating) h s1 f err where "UserHomeDir s = Inr h"
      and "install s bin (workspace s bin) = (s1, None)"
      and "os_Open (files s1) (Walk_dst (files s1) (workspace s bin)) = Inr f"
      and "stat_fault s1 = Some err"
      and "Write s w bin = (s1, w, Some (Wrap ''stating'' err))"
  | (not_executable) h s1 f where "UserHomeDir s = Inr h"
      and "install s bin (workspace s bin) = (s1, None)"
      and "os_Open (files s1) (Walk_dst (files s1) (workspace s bin)) = Inr f"
      and "stat_fault s1 = None" and "\<not> isExecutable (Mode f)"
      and "Write s w bin = (s1, w, Some ErrNotExecutable)"
  | (copying) h s1 f w1 err where "UserHomeDir s = Inr h"
      and "install s bin (workspace s bin) = (s1, None)"
      and "os_Open (files s1) (Walk_dst (files s1) (workspace s bin)) = Inr f"
      and "stat_fault s1 = None" and "isExecutable (Mode f)"
      and "copy_to_writer w f = (w1, Some err)"
      and "Write s w bin = (s1, w1, Some (Wrap ''copying'' err))"
  | (closing) h s1 f w1 err where "UserHomeDir s = Inr h"
      and "install s bin (workspace s bin) = (s1, None)"
      and "os_Open (files s1) (Walk_dst (files s1) (workspace s bin)) = Inr f"
      and "stat_fault s1 = None" and "isExecutable (Mode f)"
      and "copy_to_writer w f = (w1, None)" and "close_fault s1 = Some err"
      and "Write s w bin = (s1, w1, Some (Wrap ''closing'' err))"
  | (cleaning_fault) h s1 f w1 err where "UserHomeDir s = Inr h"
      and "install s bin (workspace s bin) = (s1, None)"
      and "os_Open (files s1) (Walk_dst (files s1) (workspace s bin)) = Inr f"
      and "stat_fault s1 = None" and "isExecutable (Mode f)"
      and "copy_to_writer w f = (w1, None)" and "close_fault s1 = None"
      and "remove_fault s1 = Some err"
      and "Write s w bin = (s1, w1, Some (Wrap ''cleaning'' err))"
  | (cleaning) h s1 f w1 fs2 e where "UserHomeDir s = Inr h"
      and "install s bin (workspace s bin) = (s1, None)"
      and "os_Open (files s1) (Walk_dst (files s1) (workspace s bin)) = Inr f"
      and "stat_fault s1 = None" and "isExecutable (Mode f)"
      and "copy_to_writer w f = (w1, None)" and "close_fault s1 = None"
      and "remove_fault s1 = None"
      and "os_RemoveAll (files s1) (workspace s bin) = (fs2, Some e)"
      and "Write s w bin = (s1\<lparr>files := fs2\<rparr>, w1, Some (Wrap ''cleaning'' (Errno e)))"
  | (cleaned) h s1 f w1 fs2 where "UserHomeDir s = Inr h"
      and "install s bin (workspace s bin) = (s1, None)"
      and "os_Open (files s1) (Walk_dst (files s1) (workspace s bin)) = Inr f"
      and "stat_fault s1 = None" and "isExecutable (Mode f)"
      and "copy_to_writer w f = (w1, None)" and "close_fault s1 = None"
      and "remove_fault s1 = None"
      and "os_RemoveAll (files s1) (workspace s bin) = (fs2, None)"
      and "Write s w bin = (s1\<lparr>files := fs2\<rparr>, w1, None)"
proof (cases "UserHomeDir s")
  case (Inl err)
  then show ?thesis
    by (intro home [of err]) (simp_all add: Write_def Let_def workspace_def)
next
  case (Inr h)
  note h = this
  obtain s1 e1 where i: "install s bin (workspace s bin) = (s1, e1)"
    by (cases "install s bin (workspace s bin)")
  show ?thesis
  proof (cases e1)
    case (Some err)
    with h i show ?thesis
      by (intro tidy [of h s1 err]) (simp_all add: Write_def Let_def workspace_def)
  next
    case None
    note i = i [unfolded None]
    show ?thesis
    proof (cases "os_Open (files s1) (Walk_dst (files s1) (workspace s bin))")
      case (Inl e)
      with h i show ?thesis
        by (intro open_failed [of h s1 e]) (simp_all add: Write_def Let_def workspace_def)
    next
      case (Inr f)
      note f = this
      show ?thesis
      proof (cases "stat_fault s1")
        case (Some err)
        with h i f show ?thesis
          by (intro stating [of h s1 f err]) (simp_all add: Write_def Let_def workspace_def)
      next
        case None
        note st = this
        show ?thesis
        proof (cases "isExecutable (Mode f)")
          case False
          with h i f st show ?thesis
            by (intro not_executable [of h s1 f]) (simp_all add: Write_def Let_def workspace_def)
        next
          case True
          note x = this
          obtain w1 e2 where c: "copy_to_writer w f = (w1, e2)"
            by (cases "copy_to_writer w f")
          show ?thesis
          proof (cases e2)
            case (Some err)
            with h i f st x c show ?thesis
              by (intro copying [of h s1 f w1 err]) (simp_all add: Write_def Let_def workspace_def)
          next
            case None
            note c = c [unfolded None]
            show ?thesis
            proof (cases "close_fault s1")
              case (Some err)
              with h i f st x c show ?thesis
                by (intro closing [of h s1 f w1 err]) (simp_all add: Write_def Let_def workspace_def)
            next
              case None
              note cl = this
              show ?thesis
              proof (cases "remove_fault s1")
                case (Some err)
                with h i f st x c cl show ?thesis
                  by (intro cleaning_fault [of h s1 f w1 err]) (simp_all add: Write_def Let_def workspace_def)
              next
                case None
                note rf = this
                obtain fs2 e3 where r: "os_RemoveAll (files s1) (workspace s bin) = (fs2, e3)"
                  by (cases "os_RemoveAll (files s1) (workspace s bin)")
                show ?thesis
                proof (cases e3)
                  case (Some e)
                  with h i f st x c cl rf r show ?thesis
                    by (intro cleaning [of h s1 f w1 fs2 e]) (simp_all add: Write_def Let_def workspace_def)
                next
                  case None
                  with h i f st x c cl rf r show ?thesis
                    by (intro cleaned [of h s1 f w1 fs2]) (simp_all add: Write_def Let_def workspace_def)
                qed
              qed
            qed
          qed
        qed
      qed
    qed
  qed
qed

lemma Write_keeps_home: "UserHomeDir (fst (Write s w bin)) = UserHomeDir s"
proof -
  have "UserHomeDir s1 = UserHomeDir s" if "install s bin (workspace s bin) = (s1, e)" for s1 e
    using that install_keeps_home [of s bin "workspace s bin"] by simp
  then show ?thesis
    by (cases rule: Write_outcome [of s w bin]) auto
qed

lemma foldl_visit:
  "foldl visit d vs =
     (case filter has_exec_bit vs of
        [] \<Rightarrow> d
      | c # cs \<Rightarrow> fst (last (c # cs)))"
proof (induction vs rule: rev_induct)
  case Nil
  then show ?case by simp
next
  case (snoc v vs)
  then show ?case
    by (cases v) (auto simp: visit_def has_exec_bit_def split: list.splits)
qed

subsection \<open>Facts about the example worlds\<close>

lemma world_with_home: "UserHomeDir (world_with t) = Inr ''/root''"
  by (simp add: world_with_def)

lemma workspace_world_with:
  "workspace (world_with t) target_v3 = ''/root/.cache/gobinaries/example.com/tool''"
  by (simp add: workspace_def world_with_def target_v3_def filepath_Join_def filepath_Clean_def
      clean_elems_def clean_step_def)

lemma install_world_with:
  "install (world_with t) target_v3 (workspace (world_with t) target_v3)
     = ((world_with t)\<lparr>files := \<lparr>root = t, cwd = [], umask = 18\<rparr>\<rparr>, None)"
proof -
  have "exec_environ (Env (install_cmd Map.empty ''/root'' target_v3
           ''/root/.cache/gobinaries/example.com/tool''))
        = Inr [''PATH='', ''HOME='', ''PWD='', ''GOLANG_VERSION='', ''TMPDIR='',
               ''GOPATH=/root/.cache/gobinaries/example.com/tool'', ''CGO_ENABLED=0'',
               ''GOOS=linux'', ''GOARCH=arm'', ''GOARM=7'']"
    by code_simp
  then have "install (world_with t) target_v3 ''/root/.cache/gobinaries/example.com/tool''
     = ((world_with t)\<lparr>files := \<lparr>root = t, cwd = [], umask = 18\<rparr>\<rparr>, None)"
    by (simp add: install_def command_def world_with_def)
  then show ?thesis
    by (simp add: workspace_world_with)
qed

subsection \<open>The scan of the workspace\<close>

lemma Walk_dst_last:
  "Walk_dst fs dir =
     (case os_Lstat fs dir of
        Inl e \<Rightarrow> []
      | Inr n \<Rightarrow>
          (case filter has_exec_bit (walk dir n) of
             [] \<Rightarrow> []
           | c # cs \<Rightarrow> fst (last (c # cs))))"
  by (simp add: Walk_dst_def foldl_visit split: sum.splits)

lemma built_Lstat:
  "os_Lstat \<lparr>root = built_tree, cwd = [], umask = 18\<rparr> ''/root/.cache/gobinaries/example.com/tool''
   = Inr (Directory 493
     [(''pkg'', Directory 493 [(''x.go'', File 292 [7])]),
      (''bin'', Directory 493 [(''b'', File 484 [1, 2, 3]), (''a'', File 493 [4, 5])])])"
  by code_simp

lemma built_candidates:
  "filter has_exec_bit (walk ''/root/.cache/gobinaries/example.com/tool'' (Directory 493
     [(''pkg'', Directory 493 [(''x.go'', File 292 [7])]),
      (''bin'', Directory 493 [(''b'', File 484 [1, 2, 3]), (''a'', File 493 [4, 5])])]))
   = [(''/root/.cache/gobinaries/example.com/tool/bin/a'', File 493 [4, 5]),
      (''/root/.cache/gobinaries/example.com/tool/bin/b'', File 484 [1, 2, 3])]"
  by code_simp

lemma built_dst:
  "Walk_dst \<lparr>root = built_tree, cwd = [], umask = 18\<rparr> ''/root/.cache/gobinaries/example.com/tool''
   = ''/root/.cache/gobinaries/example.com/tool/bin/b''"
  by code_simp

lemma built_member:
  "(''/root/.cache/gobinaries/example.com/tool/bin/a'', File 493 [4, 5])
     \<in> set (walk ''/root/.cache/gobinaries/example.com/tool'' (Directory 493
     [(''pkg'', Directory 493 [(''x.go'', File 292 [7])]),
      (''bin'', Directory 493 [(''b'', File 484 [1, 2, 3]), (''a'', File 493 [4, 5])])]))"
  by code_simp

lemma built_Open:
  "os_Open \<lparr>root = built_tree, cwd = [], umask = 18\<rparr> ''/root/.cache/gobinaries/example.com/tool/bin/b''
   = Inr (File 484 [1, 2, 3])"
  by code_simp

lemma example_modes:
  "isExecutable (Mode (File 493 [4, 5]))"
  "\<not> isExecutable (Mode (File 484 [1, 2, 3]))"
  "has_exec_bit (''/root/.cache/gobinaries/example.com/tool/bin/a'', File 493 [4, 5])"
  by code_simp+

subsection \<open>A build without an executable\<close>

lemma library_Lstat:
  "os_Lstat \<lparr>root = library_tree, cwd = [], umask = 18\<rparr> ''/root/.cache/gobinaries/example.com/tool''
   = Inr (Directory 493 [(''pkg'', Directory 493 [(''x.go'', File 292 [7])])])"
  by code_simp

lemma library_candidates:
  "filter has_exec_bit (walk ''/root/.cache/gobinaries/example.com/tool''
     (Directory 493 [(''pkg'', Directory 493 [(''x.go'', File 292 [7])])])) = []"
  by code_simp

text \<open>
  C3. The claim: when the scan finds no file with an execute bit, and when the file found
  fails the three-way check, \<open>Write\<close> fails with \<open>ErrNotExecutable\<close> and writes nothing. The
  code: the second case is so; in the first \<open>dst\<close> stays empty, \<open>os.Open("")\<close> fails, and
  \<open>Write\<close> returns the wrapped error \<open>opening: ...\<close> (nothing written), not
  \<open>ErrNotExecutable\<close>.
\<close>

theorem Write_without_candidate:
  assumes "UserHomeDir s = Inr h" and "install s bin (workspace s bin) = (s1, None)"
  shows "((case os_Lstat (files s1) (workspace s bin) of
             Inl e \<Rightarrow> []
           | Inr n \<Rightarrow> filter has_exec_bit (walk (workspace s bin) n)) = [] \<longrightarrow>
          Write s w bin = (s1, w, Some (Wrap ''opening'' (Errno ENOENT))))
       \<and> (os_Open (files s1) (Walk_dst (files s1) (workspace s bin)) = Inr f \<longrightarrow>
          stat_fault s1 = None \<longrightarrow> \<not> isExecutable (Mode f) \<longrightarrow>
          Write s w bin = (s1, w, Some ErrNotExecutable))"
proof (intro conjI impI)
  assume "(case os_Lstat (files s1) (workspace s bin) of
             Inl e \<Rightarrow> []
           | Inr n \<Rightarrow> filter has_exec_bit (walk (workspace s bin) n)) = []"
  then have "Walk_dst (files s1) (workspace s bin) = []"
    by (simp add: Walk_dst_last split: sum.splits)
  then have "os_Open (files s1) (Walk_dst (files s1) (workspace s bin)) = Inl ENOENT"
    by (simp add: os_Open_def path_error_def)
  with assms show "Write s w bin = (s1, w, Some (Wrap ''opening'' (Errno ENOENT)))"
    by (cases rule: Write_outcome [of s w bin]) auto
next
  assume "os_Open (files s1) (Walk_dst (files s1) (workspace s bin)) = Inr f"
    and "stat_fault s1 = None" and "\<not> isExecutable (Mode f)"
  with assms show "Write s w bin = (s1, w, Some ErrNotExecutable)"
    by (cases rule: Write_outcome [of s w bin]) auto
qed

theorem Write_without_candidate_witness:
  "Write (world_with library_tree) writer0 target_v3
     = ((world_with library_tree)\<lparr>files := \<lparr>root = library_tree, cwd = [], umask = 18\<rparr>\<rparr>, writer0,
        Some (Wrap ''opening'' (Errno ENOENT)))
   \<and> Wrap ''opening'' (Errno ENOENT) \<noteq> ErrNotExecutable"
proof -
  let ?s = "world_with library_tree"
  let ?s1 = "?s\<lparr>files := \<lparr>root = library_tree, cwd = [], umask = 18\<rparr>\<rparr>"
  have i: "install ?s target_v3 (workspace ?s target_v3) = (?s1, None)"
    by (rule install_world_with)
  have n: "(case os_Lstat (files ?s1) (workspace ?s target_v3) of
             Inl e \<Rightarrow> []
           | Inr n \<Rightarrow> filter has_exec_bit (walk (workspace ?s target_v3) n)) = []"
    by (simp add: workspace_world_with library_Lstat library_candidates)
  from Write_without_candidate [OF world_with_home i, of writer0] n
  show ?thesis by simp
qed

subsection \<open>The removal of the workspace\<close>

lemma binary_dst:
  "Walk_dst \<lparr>root = binary_tree, cwd = [], umask = 18\<rparr> ''/root/.cache/gobinaries/example.com/tool''
   = ''/root/.cache/gobinaries/example.com/tool/bin/tool''"
  by code_simp

lemma binary_Open:
  "os_Open \<lparr>root = binary_tree, cwd = [], umask = 18\<rparr> ''/root/.cache/gobinaries/example.com/tool/bin/tool''
   = Inr (File 493 [4, 5])"
  by code_simp

lemma binary_Lstat:
  "os_Lstat \<lparr>root = binary_tree, cwd = [], umask = 18\<rparr> ''/root/.cache/gobinaries/example.com/tool''
   = Inr (Directory 493
     [(''pkg'', Directory 493 [(''x.go'', File 292 [7])]),
      (''bin'', Directory 493 [(''tool'', File 493 [4, 5])])])"
  by code_simp

lemma binary_copy_full:
  "copy_to_writer writer_full (File 493 [4, 5])
     = (writer_full, Some (ErrString ''short write''))"
  by (simp add: copy_to_writer_def writer_full_def)

lemma binary_copy:
  "copy_to_writer writer0 (File 493 [4, 5]) = (writer0\<lparr>written := [4, 5]\<rparr>, None)"
  by (simp add: copy_to_writer_def writer0_def)

lemma binary_RemoveAll:
  "os_RemoveAll \<lparr>root = binary_tree, cwd = [], umask = 18\<rparr> ''/root/.cache/gobinaries/example.com/tool''
   = (\<lparr>root = Directory 493 [(''root'', Directory 493 [(''.cache'', Directory 493
        [(''gobinaries'', Directory 493 [(''example.com'', Directory 493 [])])])])], cwd = [], umask = 18\<rparr>, None)"
  by code_simp

text \<open>
  C4. The claim: the workspace is removed at the end of every attempt, failed or not. The
  code: \<open>os.RemoveAll\<close> is the last step of the successful path only. Whenever \<open>Write\<close>
  returns an error from a step before it (home directory, install, open, stat, the
  executable check, copy, close), the file system is the one the install step left: the
  workspace is still there. In the example the writer fails the copy and the workspace
  stays; with a writer that accepts the bytes it is removed.
\<close>

theorem Write_failure_leaves_workspace:
  assumes "snd (snd (Write s w bin)) = Some e" and "\<forall>c. e \<noteq> Wrap ''cleaning'' c"
  shows "files (fst (Write s w bin)) =
           (case UserHomeDir s of
              Inl err \<Rightarrow> files s
            | Inr h \<Rightarrow> files (fst (install s bin (workspace s bin))))"
  using assms by (cases rule: Write_outcome [of s w bin]) auto

theorem Write_failure_leaves_workspace_witness:
  "snd (snd (Write (world_with binary_tree) writer_full target_v3))
     = Some (Wrap ''copying'' (ErrString ''short write''))
   \<and> os_Lstat (files (fst (Write (world_with binary_tree) writer_full target_v3)))
        (workspace (world_with binary_tree) target_v3)
     = Inr (Directory 493
         [(''pkg'', Directory 493 [(''x.go'', File 292 [7])]),
          (''bin'', Directory 493 [(''tool'', File 493 [4, 5])])])
   \<and> snd (snd (Write (world_with binary_tree) writer0 target_v3)) = None
   \<and> os_Lstat (files (fst (Write (world_with binary_tree) writer0 target_v3)))
        (workspace (world_with binary_tree) target_v3)
     = Inl ENOENT"
proof -
  let ?s = "world_with binary_tree"
  let ?s1 = "?s\<lparr>files := \<lparr>root = binary_tree, cwd = [], umask = 18\<rparr>\<rparr>"
  have i: "install ?s target_v3 (workspace ?s target_v3) = (?s1, None)"
    by (rule install_world_with)
  have f: "stat_fault ?s1 = None" "close_fault ?s1 = None" "remove_fault ?s1 = None"
    by (simp_all add: world_with_def)
  have o: "os_Open (files ?s1) (Walk_dst (files ?s1) (workspace ?s target_v3))
             = Inr (File 493 [4, 5])"
    by (simp add: workspace_world_with binary_dst binary_Open)
  have x: "isExecutable (Mode (File 493 [4, 5]))"
    by code_simp
  have a: "Write ?s writer_full target_v3
             = (?s1, writer_full, Some (Wrap ''copying'' (ErrString ''short write'')))"
    using world_with_home [of binary_tree] i f o x binary_copy_full
    by (cases rule: Write_outcome [of ?s writer_full target_v3]) (auto simp del: Mode.simps)
  have r: "os_RemoveAll (files ?s1) (workspace ?s target_v3)
     = (\<lparr>root = Directory 493 [(''root'', Directory 493 [(''.cache'', Directory 493
        [(''gobinaries'', Directory 493 [(''example.com'', Directory 493 [])])])])], cwd = [], umask = 18\<rparr>, None)"
    by (simp add: workspace_world_with binary_RemoveAll)
  have b: "Write ?s writer0 target_v3
     = (?s1\<lparr>files := \<lparr>root = Directory 493 [(''root'', Directory 493 [(''.cache'', Directory 493
        [(''gobinaries'', Directory 493 [(''example.com'', Directory 493 [])])])])], cwd = [], umask = 18\<rparr>\<rparr>,
        writer0\<lparr>written := [4, 5]\<rparr>, None)"
    using world_with_home [of binary_tree] i f o x binary_copy r
    by (cases rule: Write_outcome [of ?s writer0 target_v3]) (auto simp del: Mode.simps)
  have gone: "os_Lstat \<lparr>root = Directory 493 [(''root'', Directory 493 [(''.cache'', Directory 493
        [(''gobinaries'', Directory 493 [(''example.com'', Directory 493 [])])])])], cwd = [], umask = 18\<rparr>
        ''/root/.cache/gobinaries/example.com/tool'' = Inl ENOENT"
    by code_simp
  have "files (fst (Write ?s writer_full target_v3)) = files ?s1"
    using Write_failure_leaves_workspace [of ?s writer_full target_v3
        "Wrap ''copying'' (ErrString ''short write'')"] a i world_with_home [of binary_tree]
    by simp
  then have "os_Lstat (files (fst (Write ?s writer_full target_v3))) (workspace ?s target_v3)
     = Inr (Directory 493
         [(''pkg'', Directory 493 [(''x.go'', File 292 [7])]),
          (''bin'', Directory 493 [(''tool'', File 493 [4, 5])])])"
    by (simp add: workspace_world_with binary_Lstat)
  moreover have "os_Lstat (files (fst (Write ?s writer0 target_v3))) (workspace ?s target_v3)
     = Inl ENOENT"
    by (simp add: b workspace_world_with gone)
  ultimately show ?thesis
    using a b by simp
qed

section \<open>The local object store\<close>

subsection \<open>Files in the tree\<close>

lemma map_of_update [simp]:
  "map_of (AList.update k v al) k' = (if k' = k then Some v else map_of al k')"
  by (simp add: update_conv')












subsection \<open>Round trip\<close>



subsection \<open>A write in progress\<close>




section \<open>Cleaned paths\<close>

subsection \<open>Splitting and joining\<close>

lemma strings_Split_nonempty: "strings_Split s sep \<noteq> []"
  by (induction s) (auto split: list.splits)

lemma strings_Split_append:
  "strings_Split (a @ sep # b) sep = strings_Split a sep @ strings_Split b sep"
proof (induction a)
  case Nil
  then show ?case by simp
next
  case (Cons c a)
  then show ?case
    using strings_Split_nonempty [of a sep]
    by (cases "strings_Split a sep") (auto split: list.splits)
qed

lemma strings_Split_plain: "sep \<notin> set s \<Longrightarrow> strings_Split s sep = [s]"
  by (induction s) auto

lemma strings_Join_snoc:
  "xs \<noteq> [] \<Longrightarrow> strings_Join (xs @ [e]) sep = strings_Join xs sep @ sep @ e"
  by (induction xs sep rule: strings_Join.induct) auto

subsection \<open>Cleaning a path that ends in two plain elements\<close>

lemma clean_step_plain: "plain_element e \<Longrightarrow> clean_step r out e = out @ [e]"
  by (simp add: clean_step_def plain_element_def)

lemma clean_step_empty: "clean_step r out [] = out"
  by (simp add: clean_step_def)

lemma dir_prefix_split:
  assumes "dir_prefix x" and "CHR ''/'' \<notin> set a"
  shows "\<exists>ys. strings_Split x (CHR ''/'') = ys @ [[]]
          \<and> strings_Split (x @ a) (CHR ''/'') = ys @ [a]"
proof (cases "x = []")
  case True
  with assms show ?thesis
    by (simp add: strings_Split_plain)
next
  case False
  with assms(1) obtain y where x: "x = y @ ''/''"
    by (metis append_butlast_last_id dir_prefix_def)
  have "strings_Split x (CHR ''/'') = strings_Split y (CHR ''/'') @ [[]]"
    unfolding x using strings_Split_append [of y "CHR ''/''" "[]"] by simp
  moreover have "strings_Split (x @ a) (CHR ''/'') = strings_Split y (CHR ''/'') @ [a]"
    unfolding x using strings_Split_append [of y "CHR ''/''" a] assms(2)
    by (simp add: strings_Split_plain)
  ultimately show ?thesis by blast
qed

lemma rooted_dir_prefix:
  "dir_prefix x \<Longrightarrow> plain_element a \<Longrightarrow>
   (x @ a @ t \<noteq> [] \<and> hd (x @ a @ t) = CHR ''/'') = (x \<noteq> [] \<and> hd x = CHR ''/'')"
  by (cases x; cases a) (auto simp: plain_element_def)

lemma clean_elems_two:
  assumes "dir_prefix x" and "plain_element a" and "plain_element b"
  shows "clean_elems (x @ a @ CHR ''/'' # b) = clean_elems x @ [a, b]"
proof -
  from assms have sa: "CHR ''/'' \<notin> set a" and sb: "CHR ''/'' \<notin> set b"
    by (simp_all add: plain_element_def)
  from dir_prefix_split [OF assms(1) sa] obtain ys where
    y1: "strings_Split x (CHR ''/'') = ys @ [[]]"
    and y2: "strings_Split (x @ a) (CHR ''/'') = ys @ [a]"
    by blast
  have "strings_Split (x @ a @ CHR ''/'' # b) (CHR ''/'') = ys @ [a, b]"
    using strings_Split_append [of "x @ a" "CHR ''/''" b] y2 sb
    by (simp add: strings_Split_plain)
  moreover have "(x @ a @ CHR ''/'' # b \<noteq> [] \<and> hd (x @ a @ CHR ''/'' # b) = CHR ''/'')
      = (x \<noteq> [] \<and> hd x = CHR ''/'')"
    by (rule rooted_dir_prefix [OF assms(1,2)])
  ultimately show ?thesis
    using y1 assms(2,3)
    by (simp add: clean_elems_def clean_step_plain clean_step_empty)
qed

lemma clean_elems_one_dir:
  assumes "dir_prefix x" and "plain_element a"
  shows "clean_elems (x @ a @ [CHR ''/'']) = clean_elems x @ [a]"
proof -
  from assms have sa: "CHR ''/'' \<notin> set a"
    by (simp add: plain_element_def)
  from dir_prefix_split [OF assms(1) sa] obtain ys where
    y1: "strings_Split x (CHR ''/'') = ys @ [[]]"
    and y2: "strings_Split (x @ a) (CHR ''/'') = ys @ [a]"
    by blast
  have "strings_Split (x @ a @ [CHR ''/'']) (CHR ''/'') = ys @ [a, []]"
    using strings_Split_append [of "x @ a" "CHR ''/''" "[]"] y2
    by simp
  moreover have "(x @ a @ [CHR ''/''] \<noteq> [] \<and> hd (x @ a @ [CHR ''/'']) = CHR ''/'')
      = (x \<noteq> [] \<and> hd x = CHR ''/'')"
    by (rule rooted_dir_prefix [OF assms(1,2)])
  ultimately show ?thesis
    using y1 assms(2)
    by (simp add: clean_elems_def clean_step_plain clean_step_empty)
qed

lemma dir_prefix_clean_prefix: "dir_prefix (clean_prefix x)"
  by (simp add: dir_prefix_def clean_prefix_def)

lemma filepath_Clean_two:
  assumes "dir_prefix x" and "plain_element a" and "plain_element b"
  shows "filepath_Clean (x @ a @ CHR ''/'' # b) = clean_prefix x @ a @ CHR ''/'' # b"
proof -
  let ?z = "x @ a @ CHR ''/'' # b"
  have r: "(hd ?z = CHR ''/'') = (x \<noteq> [] \<and> hd x = CHR ''/'')"
    using rooted_dir_prefix [OF assms(1,2), of "CHR ''/'' # b"] by simp
  have j: "strings_Join (clean_elems ?z) ''/''
      = (if clean_elems x = [] then [] else strings_Join (clean_elems x) ''/'' @ ''/'')
        @ a @ CHR ''/'' # b"
    unfolding clean_elems_two [OF assms]
    using strings_Join_snoc [of "clean_elems x @ [a]" b "''/''"]
      strings_Join_snoc [of "clean_elems x" a "''/''"]
    by (cases "clean_elems x = []") simp_all
  have "a \<noteq> []"
    using assms(2) by (simp add: plain_element_def)
  then have "filepath_Clean ?z
      = (if hd ?z = CHR ''/'' then ''/'' else []) @ strings_Join (clean_elems ?z) ''/''"
    by (simp add: filepath_Clean_def Let_def j)
  then show ?thesis
    by (simp add: j r clean_prefix_def)
qed

lemma plain_key_dir: "plain_target bin \<Longrightarrow> plain_element (key_dir bin)"
  by (cases "Path bin" rule: list.exhaust; cases "tl (Path bin)"; cases "tl (tl (Path bin))")
    (auto simp: plain_target_def plain_element_def key_dir_def strings_Replace_def)

lemma plain_key_file: "plain_target bin \<Longrightarrow> plain_element (key_file bin)"
proof -
  assume p: "plain_target bin"
  have "length (filter (\<lambda>c. c = CHR ''-'') (key_file bin)) \<ge> 3"
    by (simp add: key_file_def)
  then have "key_file bin \<noteq> []" "key_file bin \<noteq> ''.''" "key_file bin \<noteq> ''..''"
    by auto
  with p show ?thesis
    by (auto simp: plain_target_def plain_element_def key_file_def)
qed

section \<open>The storage key\<close>

lemma getKey_Clean:
  "getKey l bin = filepath_Clean (Prefix l @ CHR ''/'' # key_dir bin @ CHR ''/'' # key_file bin)"
  by (simp add: getKey_def Let_def filepath_Join_def key_dir_def key_file_def)

lemma getKey_plain:
  assumes "plain_target bin"
  shows "getKey l bin = clean_prefix (Prefix l @ ''/'') @ key_dir bin @ CHR ''/'' # key_file bin"
proof -
  have "dir_prefix (Prefix l @ ''/'')"
    by (simp add: dir_prefix_def)
  from filepath_Clean_two [OF this plain_key_dir [OF assms] plain_key_file [OF assms]]
  show ?thesis
    by (simp add: getKey_Clean)
qed

lemma clean_prefix_plain:
  assumes "plain_element p"
  shows "clean_prefix (p @ ''/'') = p @ ''/''"
proof -
  have "dir_prefix []"
    by (simp add: dir_prefix_def)
  from clean_elems_one_dir [OF this assms] have "clean_elems (p @ ''/'') = [p]"
    by (simp add: clean_elems_def clean_step_empty)
  moreover from assms have "hd (p @ ''/'') \<noteq> CHR ''/''"
    by (cases p) (auto simp: plain_element_def)
  ultimately show ?thesis
    by (simp add: clean_prefix_def)
qed

lemma cut_at_first:
  assumes "c \<notin> set a" and "c \<notin> set a'" and "a @ c # b = a' @ c # b'"
  shows "a = a' \<and> b = b'"
proof -
  have "takeWhile (\<lambda>x. x \<noteq> c) (a @ c # b) = a" "takeWhile (\<lambda>x. x \<noteq> c) (a' @ c # b') = a'"
    using assms(1,2) by (auto simp: takeWhile_tail)
  with assms(3) have "a = a'"
    by simp
  with assms(3) show ?thesis
    by simp
qed

lemma cut_at_last:
  assumes "c \<notin> set b" and "c \<notin> set b'" and "a @ c # b = a' @ c # b'"
  shows "a = a' \<and> b = b'"
proof -
  from assms(3) have "rev (a @ c # b) = rev (a' @ c # b')"
    by simp
  then have "rev b @ c # rev a = rev b' @ c # rev a'"
    by simp
  from cut_at_first [OF _ _ this] assms(1,2) show ?thesis
    by simp
qed

lemma key_file_inj:
  assumes "dash_free_target bin" and "dash_free_target bin'" and "key_file bin = key_file bin'"
  shows "Version bin = Version bin' \<and> OS bin = OS bin' \<and> Arch bin = Arch bin' \<and> CGO bin = CGO bin'"
proof -
  from assms(1,2) have d: "CHR ''-'' \<notin> set (OS bin)" "CHR ''-'' \<notin> set (Arch bin)"
    "CHR ''-'' \<notin> set (CGO bin)" "CHR ''-'' \<notin> set (OS bin')" "CHR ''-'' \<notin> set (Arch bin')"
    "CHR ''-'' \<notin> set (CGO bin')"
    by (simp_all add: dash_free_target_def)
  from assms(3) have "(Version bin @ CHR ''-'' # OS bin @ CHR ''-'' # Arch bin) @ CHR ''-'' # CGO bin
      = (Version bin' @ CHR ''-'' # OS bin' @ CHR ''-'' # Arch bin') @ CHR ''-'' # CGO bin'"
    by (simp add: key_file_def)
  from cut_at_last [OF d(3) d(6) this]
  have c: "CGO bin = CGO bin'"
    and "(Version bin @ CHR ''-'' # OS bin) @ CHR ''-'' # Arch bin
       = (Version bin' @ CHR ''-'' # OS bin') @ CHR ''-'' # Arch bin'"
    by simp_all
  from cut_at_last [OF d(2) d(5) this(2)]
  have a: "Arch bin = Arch bin'"
    and "Version bin @ CHR ''-'' # OS bin = Version bin' @ CHR ''-'' # OS bin'"
    by simp_all
  from cut_at_last [OF d(1) d(4) this(2)] a c show ?thesis
    by simp
qed

lemma key_dir_inj:
  assumes "dash_free_target bin" and "dash_free_target bin'" and "key_dir bin = key_dir bin'"
  shows "Path bin = Path bin'"
proof -
  have "inj_on (\<lambda>c. if c = CHR ''/'' then CHR ''-'' else c) (set (Path bin) \<union> set (Path bin'))"
    using assms(1,2) by (auto simp: inj_on_def dash_free_target_def split: if_splits)
  then show ?thesis
    using assms(3) by (simp add: key_dir_def strings_Replace_def map_inj_on)
qed

text \<open>
  C9, amended: the key is the cleaned form of
  \<open><prefix>/<package path with every / replaced by ->/<version>-<os>-<arch>-<cgo>\<close>, where
  the package path is the field \<open>Path\<close> (the field \<open>Module\<close> is not read). For a prefix that
  is one plain path element and a plain target the key is this string itself. On plain
  targets in which the dash occurs in none of package path, os, arch and cgo, the key is
  injective in the five fields it reads.
\<close>

theorem getKey_form_and_injective:
  "getKey l bin =
     filepath_Clean (Prefix l @ ''/'' @ strings_Replace (Path bin) (CHR ''/'') (CHR ''-'') @ ''/''
       @ Version bin @ ''-'' @ OS bin @ ''-'' @ Arch bin @ ''-'' @ CGO bin)
   \<and> getKey l (bin\<lparr>Module := m\<rparr>) = getKey l bin
   \<and> (plain_element (Prefix l) \<longrightarrow> plain_target bin \<longrightarrow>
        getKey l bin =
          Prefix l @ ''/'' @ strings_Replace (Path bin) (CHR ''/'') (CHR ''-'') @ ''/''
            @ Version bin @ ''-'' @ OS bin @ ''-'' @ Arch bin @ ''-'' @ CGO bin)
   \<and> (plain_target bin \<longrightarrow> plain_target bin' \<longrightarrow>
        dash_free_target bin \<longrightarrow> dash_free_target bin' \<longrightarrow>
        getKey l bin = getKey l bin' \<longrightarrow>
        Path bin = Path bin' \<and> Version bin = Version bin' \<and> OS bin = OS bin'
        \<and> Arch bin = Arch bin' \<and> CGO bin = CGO bin')"
proof (intro conjI impI)
  show "getKey l bin =
     filepath_Clean (Prefix l @ ''/'' @ strings_Replace (Path bin) (CHR ''/'') (CHR ''-'') @ ''/''
       @ Version bin @ ''-'' @ OS bin @ ''-'' @ Arch bin @ ''-'' @ CGO bin)"
    by (simp add: getKey_Clean key_dir_def key_file_def)
next
  show "getKey l (bin\<lparr>Module := m\<rparr>) = getKey l bin"
    by (simp add: getKey_def)
next
  assume "plain_element (Prefix l)" and "plain_target bin"
  then show "getKey l bin =
          Prefix l @ ''/'' @ strings_Replace (Path bin) (CHR ''/'') (CHR ''-'') @ ''/''
            @ Version bin @ ''-'' @ OS bin @ ''-'' @ Arch bin @ ''-'' @ CGO bin"
    by (simp add: getKey_plain clean_prefix_plain key_dir_def key_file_def)
next
  assume p: "plain_target bin" "plain_target bin'"
    and d: "dash_free_target bin" "dash_free_target bin'"
    and k: "getKey l bin = getKey l bin'"
  from k have "key_dir bin @ CHR ''/'' # key_file bin = key_dir bin' @ CHR ''/'' # key_file bin'"
    by (simp add: getKey_plain p)
  moreover have "CHR ''/'' \<notin> set (key_dir bin)" "CHR ''/'' \<notin> set (key_dir bin')"
    using plain_key_dir [OF p(1)] plain_key_dir [OF p(2)] by (simp_all add: plain_element_def)
  ultimately have "key_dir bin = key_dir bin' \<and> key_file bin = key_file bin'"
    by (intro cut_at_first [of "CHR ''/''"])
  then have "key_dir bin = key_dir bin'" and "key_file bin = key_file bin'"
    by simp_all
  with key_dir_inj [OF d] key_file_inj [OF d]
  show "Path bin = Path bin'" "Version bin = Version bin'" "OS bin = OS bin'"
    "Arch bin = Arch bin'" "CGO bin = CGO bin'"
    by simp_all
qed

text \<open>
  C9, as stated, fails: the claim is that two targets that differ in a field have distinct
  keys. The package paths \<open>github.com/a/b-c\<close> and \<open>github.com/a/b/c\<close> give the same key, and
  so do version \<open>v1.0.0-rc1\<close> on \<open>linux\<close> and version \<open>v1.0.0\<close> on \<open>rc1-linux\<close>.
\<close>

theorem getKey_collisions:
  "getKey store0 target_b = getKey store0 target_c
   \<and> Path target_b \<noteq> Path target_c \<and> Module target_b \<noteq> Module target_c
   \<and> getKey store0 target_d = getKey store0 target_e
   \<and> Version target_d \<noteq> Version target_e \<and> OS target_d \<noteq> OS target_e"
  by code_simp

theorem getKey_form_and_injective_witness:
  "getKey store0 target_a = ''production/example.com-tool/v1.2.0-linux-amd64-0''
   \<and> getKey store0 (target_a\<lparr>Module := ''example.com''\<rparr>) = getKey store0 target_a
   \<and> Path (target_a\<lparr>Module := ''example.com''\<rparr>) = Path target_a"
proof -
  have pe: "plain_element (Prefix store0)"
    by (simp add: store0_def plain_element_def)
  have pt: "plain_target target_a" "plain_target (target_a\<lparr>Module := ''example.com''\<rparr>)"
    by (simp_all add: target_a_def plain_target_def)
  have df: "dash_free_target target_a" "dash_free_target (target_a\<lparr>Module := ''example.com''\<rparr>)"
    by (simp_all add: target_a_def dash_free_target_def)
  note t = getKey_form_and_injective [of store0 target_a "''example.com''"
      "target_a\<lparr>Module := ''example.com''\<rparr>"]
  from t pe pt(1) have "getKey store0 target_a =
          Prefix store0 @ ''/'' @ strings_Replace (Path target_a) (CHR ''/'') (CHR ''-'') @ ''/''
            @ Version target_a @ ''-'' @ OS target_a @ ''-'' @ Arch target_a @ ''-'' @ CGO target_a"
    by blast
  then have a: "getKey store0 target_a = ''production/example.com-tool/v1.2.0-linux-amd64-0''"
    by (simp add: store0_def target_a_def strings_Replace_def)
  from t have b: "getKey store0 (target_a\<lparr>Module := ''example.com''\<rparr>) = getKey store0 target_a"
    by blast
  from t [THEN conjunct2, THEN conjunct2, THEN conjunct2] pt df b
  have "Path target_a = Path (target_a\<lparr>Module := ''example.com''\<rparr>)"
    by simp
  with a b show ?thesis
    by simp
qed

section \<open>Resolving paths\<close>

subsection \<open>Cleaning does not change what a path resolves to\<close>

lemma strings_Split_no_sep: "e \<in> set (strings_Split s sep) \<Longrightarrow> sep \<notin> set e"
  by (induction s arbitrary: e) (auto split: if_splits list.splits)

lemma stack_ok_step:
  "stack_ok r S \<Longrightarrow> CHR ''/'' \<notin> set e \<Longrightarrow> stack_ok r (clean_step r S e)"
  by (auto simp: stack_ok_def clean_step_def dest: in_set_butlastD)

lemma stack_ok_foldl:
  "stack_ok r S \<Longrightarrow> \<forall>e \<in> set xs. CHR ''/'' \<notin> set e \<Longrightarrow>
   stack_ok r (foldl (clean_step r) S xs)"
  by (induction xs arbitrary: S) (auto simp: stack_ok_step)

lemma stack_ok_clean_elems:
  "stack_ok (x \<noteq> [] \<and> hd x = CHR ''/'') (clean_elems x)"
  unfolding clean_elems_def
  by (rule stack_ok_foldl) (auto simp: stack_ok_def dest: strings_Split_no_sep)

lemma resolve_step_simps:
  "resolve_step at [] = at" "resolve_step at ''.'' = at" "resolve_step at ''..'' = butlast at"
  "e \<noteq> [] \<Longrightarrow> e \<noteq> ''.'' \<Longrightarrow> e \<noteq> ''..'' \<Longrightarrow> resolve_step at e = at @ [e]"
  by (simp_all add: resolve_step_def)

lemma clean_step_simps:
  "clean_step r S [] = S" "clean_step r S ''.'' = S"
  "S \<noteq> [] \<Longrightarrow> last S \<noteq> ''..'' \<Longrightarrow> clean_step r S ''..'' = butlast S"
  "S = [] \<or> last S = ''..'' \<Longrightarrow> \<not> r \<Longrightarrow> clean_step r S ''..'' = S @ [''..'']"
  "S = [] \<or> last S = ''..'' \<Longrightarrow> r \<Longrightarrow> clean_step r S ''..'' = S"
  "e \<noteq> [] \<Longrightarrow> e \<noteq> ''.'' \<Longrightarrow> e \<noteq> ''..'' \<Longrightarrow> clean_step r S e = S @ [e]"
  by (auto simp: clean_step_def)

lemma resolve_clean_steps:
  assumes "r \<longrightarrow> at = []" and "\<forall>e \<in> set xs. CHR ''/'' \<notin> set e"
  shows "foldl resolve_step at (foldl (clean_step r) [] xs) = foldl resolve_step at xs"
  using assms(2)
proof (induction xs rule: rev_induct)
  case Nil
  then show ?case by simp
next
  case (snoc e xs)
  let ?S = "foldl (clean_step r) [] xs"
  from snoc have IH: "foldl resolve_step at ?S = foldl resolve_step at xs"
    by simp
  have ok: "stack_ok r ?S"
    using snoc.prems by (intro stack_ok_foldl) (auto simp: stack_ok_def)
  show ?case
  proof (cases "e = ''..''")
    case False
    then show ?thesis
      using IH by (cases "e = [] \<or> e = ''.''") (auto simp: clean_step_simps resolve_step_simps)
  next
    case True
    note e = this
    show ?thesis
    proof (cases "?S \<noteq> [] \<and> last ?S \<noteq> ''..''")
      case True
      then have l: "last ?S \<noteq> []" "last ?S \<noteq> ''.''" "last ?S \<noteq> ''..''"
        using ok by (auto simp: stack_ok_def)
      from True have "?S = butlast ?S @ [last ?S]"
        by simp
      then have "foldl resolve_step at ?S
          = resolve_step (foldl resolve_step at (butlast ?S)) (last ?S)"
        by (metis foldl_Cons foldl_Nil foldl_append)
      then have "foldl resolve_step at ?S = foldl resolve_step at (butlast ?S) @ [last ?S]"
        using l by (simp add: resolve_step_simps)
      then have "butlast (foldl resolve_step at ?S) = foldl resolve_step at (butlast ?S)"
        by simp
      with True e IH show ?thesis
        by (simp add: clean_step_simps resolve_step_simps)
    next
      case False
      show ?thesis
      proof (cases r)
        case True
        with ok False have "?S = []"
          by (cases "?S = []") (auto simp: stack_ok_def)
        with True assms(1) e IH show ?thesis
          by (simp add: clean_step_simps resolve_step_simps)
      next
        case False
        with \<open>\<not> (?S \<noteq> [] \<and> last ?S \<noteq> ''..'')\<close> e IH show ?thesis
          by (auto simp: clean_step_simps resolve_step_simps)
      qed
    qed
  qed
qed

lemma resolve_steps_Join:
  "\<forall>e \<in> set S. CHR ''/'' \<notin> set e \<Longrightarrow>
   foldl resolve_step at (strings_Split (strings_Join S ''/'') (CHR ''/'')) = foldl resolve_step at S"
proof (induction S "''/''" arbitrary: at rule: strings_Join.induct)
  case 1
  then show ?case by (simp add: resolve_step_simps)
next
  case (2 e)
  then show ?case by (simp add: strings_Split_plain)
next
  case (3 e f es)
  have "strings_Split (e @ CHR ''/'' # strings_Join (f # es) ''/'') (CHR ''/'')
      = [e] @ strings_Split (strings_Join (f # es) ''/'') (CHR ''/'')"
    using 3(2) by (simp add: strings_Split_append strings_Split_plain)
  then show ?case
    using 3 by simp
qed

lemma strings_Join_hd:
  "S \<noteq> [] \<Longrightarrow> \<forall>e \<in> set S. e \<noteq> [] \<and> CHR ''/'' \<notin> set e \<Longrightarrow>
   strings_Join S ''/'' \<noteq> [] \<and> hd (strings_Join S ''/'') \<noteq> CHR ''/''"
  by (induction S "''/''" rule: strings_Join.induct) (auto simp: hd_append dest: hd_in_set)

lemma resolve_Clean: "resolve wd (filepath_Clean x) = resolve wd x"
proof (cases "x = []")
  case True
  then show ?thesis
    by (simp add: filepath_Clean_def resolve_def resolve_step_simps)
next
  case False
  let ?r = "x \<noteq> [] \<and> hd x = CHR ''/''"
  let ?S = "clean_elems x"
  have ok: "stack_ok ?r ?S"
    by (rule stack_ok_clean_elems)
  then have sf: "\<forall>e \<in> set ?S. CHR ''/'' \<notin> set e"
    by (simp add: stack_ok_def)
  have sp: "\<forall>e \<in> set (strings_Split x (CHR ''/'')). CHR ''/'' \<notin> set e"
    by (auto dest: strings_Split_no_sep)
  show ?thesis
  proof (cases "hd x = CHR ''/''")
    case True
    have "foldl resolve_step [] ?S = foldl resolve_step [] (strings_Split x (CHR ''/''))"
      unfolding clean_elems_def using resolve_clean_steps [OF _ sp, of ?r "[]"] by simp
    then show ?thesis
      using True False resolve_steps_Join [OF sf, of "[]"]
      by (simp add: filepath_Clean_def Let_def resolve_def resolve_step_simps)
  next
    case nr: False
    have rc: "foldl resolve_step wd ?S = foldl resolve_step wd (strings_Split x (CHR ''/''))"
      unfolding clean_elems_def using resolve_clean_steps [OF _ sp, of ?r wd] nr by simp
    show ?thesis
    proof (cases "?S = []")
      case True
      with nr False rc show ?thesis
        by (simp add: filepath_Clean_def Let_def resolve_def resolve_step_simps)
    next
      case S: False
      from ok nr have "\<forall>e \<in> set ?S. e \<noteq> [] \<and> CHR ''/'' \<notin> set e"
        by (simp add: stack_ok_def)
      from strings_Join_hd [OF S this]
      have "strings_Join ?S ''/'' \<noteq> []" "hd (strings_Join ?S ''/'') \<noteq> CHR ''/''"
        by simp_all
      with nr False rc resolve_steps_Join [OF sf, of wd] show ?thesis
        by (simp add: filepath_Clean_def Let_def resolve_def)
    qed
  qed
qed

subsection \<open>The path of an object\<close>

lemma dir_prefix_append: "dir_prefix y \<Longrightarrow> dir_prefix (x @ CHR ''/'' # y)"
  by (auto simp: dir_prefix_def)

lemma object_path:
  assumes "plain_target bin"
  shows "filepath_Join [Root l, getKey l bin]
           = path_prefix l @ key_dir bin @ CHR ''/'' # key_file bin"
proof -
  let ?kp = "clean_prefix (Prefix l @ ''/'')"
  note a = plain_key_dir [OF assms] and b = plain_key_file [OF assms]
  have k: "getKey l bin = ?kp @ key_dir bin @ CHR ''/'' # key_file bin"
    using getKey_plain [OF assms] by simp
  from a have ne: "key_dir bin \<noteq> []"
    by (simp add: plain_element_def)
  show ?thesis
  proof (cases "Root l = []")
    case True
    have "filepath_Join [Root l, getKey l bin] = filepath_Clean (getKey l bin)"
      using True ne by (simp add: filepath_Join_def k)
    also have "\<dots> = clean_prefix ?kp @ key_dir bin @ CHR ''/'' # key_file bin"
      unfolding k by (rule filepath_Clean_two [OF dir_prefix_clean_prefix a b])
    finally show ?thesis
      using True by (simp add: path_prefix_def)
  next
    case False
    have d: "dir_prefix (Root l @ CHR ''/'' # ?kp)"
      by (rule dir_prefix_append [OF dir_prefix_clean_prefix])
    have "filepath_Join [Root l, getKey l bin]
        = filepath_Clean ((Root l @ CHR ''/'' # ?kp) @ key_dir bin @ CHR ''/'' # key_file bin)"
      using False by (simp add: filepath_Join_def k)
    also have "\<dots> = clean_prefix (Root l @ CHR ''/'' # ?kp) @ key_dir bin @ CHR ''/'' # key_file bin"
      by (rule filepath_Clean_two [OF d a b])
    finally show ?thesis
      using False by (simp add: path_prefix_def)
  qed
qed

lemma resolve_two:
  assumes "dir_prefix x" and "plain_element a" and "plain_element b"
  shows "resolve wd (x @ a @ CHR ''/'' # b) = resolve wd x @ [a, b]"
proof -
  from assms have sa: "CHR ''/'' \<notin> set a" and sb: "CHR ''/'' \<notin> set b"
    and pa: "a \<noteq> []" "a \<noteq> ''.''" "a \<noteq> ''..''" and pb: "b \<noteq> []" "b \<noteq> ''.''" "b \<noteq> ''..''"
    by (simp_all add: plain_element_def)
  from dir_prefix_split [OF assms(1) sa] obtain ys where
    y1: "strings_Split x (CHR ''/'') = ys @ [[]]"
    and y2: "strings_Split (x @ a) (CHR ''/'') = ys @ [a]"
    by blast
  have "strings_Split (x @ a @ CHR ''/'' # b) (CHR ''/'') = ys @ [a, b]"
    using strings_Split_append [of "x @ a" "CHR ''/''" b] y2 sb
    by (simp add: strings_Split_plain)
  moreover have "(x @ a @ CHR ''/'' # b \<noteq> [] \<and> hd (x @ a @ CHR ''/'' # b) = CHR ''/'')
      = (x \<noteq> [] \<and> hd x = CHR ''/'')"
    by (rule rooted_dir_prefix [OF assms(1,2)])
  ultimately show ?thesis
    using y1 pa pb by (simp add: resolve_def resolve_step_simps)
qed

lemma resolve_one_dir:
  assumes "dir_prefix x" and "plain_element a"
  shows "resolve wd (x @ a @ [CHR ''/'']) = resolve wd x @ [a]"
proof -
  from assms have sa: "CHR ''/'' \<notin> set a"
    and pa: "a \<noteq> []" "a \<noteq> ''.''" "a \<noteq> ''..''"
    by (simp_all add: plain_element_def)
  from dir_prefix_split [OF assms(1) sa] obtain ys where
    y1: "strings_Split x (CHR ''/'') = ys @ [[]]"
    and y2: "strings_Split (x @ a) (CHR ''/'') = ys @ [a]"
    by blast
  have "strings_Split (x @ a @ [CHR ''/'']) (CHR ''/'') = ys @ [a, []]"
    using strings_Split_append [of "x @ a" "CHR ''/''" "[]"] y2
    by simp
  moreover have "(x @ a @ [CHR ''/''] \<noteq> [] \<and> hd (x @ a @ [CHR ''/'']) = CHR ''/'')
      = (x \<noteq> [] \<and> hd x = CHR ''/'')"
    by (rule rooted_dir_prefix [OF assms(1,2)])
  ultimately show ?thesis
    using y1 pa by (simp add: resolve_def resolve_step_simps)
qed

lemma filepath_Dir_two:
  assumes "CHR ''/'' \<notin> set b"
  shows "filepath_Dir (x @ a @ CHR ''/'' # b) = filepath_Clean (x @ a @ [CHR ''/''])"
proof -
  have "dropWhile (\<lambda>c. c \<noteq> CHR ''/'') (rev b @ CHR ''/'' # rev a @ rev x) = CHR ''/'' # rev a @ rev x"
    using assms by (auto simp: dropWhile_append3)
  then show ?thesis
    by (simp add: filepath_Dir_def)
qed

text \<open>The elements of the path of a plain target, and of its directory.\<close>

lemma resolve_object_path:
  assumes "plain_target bin"
  shows "resolve wd (filepath_Join [Root l, getKey l bin])
           = resolve wd (path_prefix l) @ [key_dir bin, key_file bin]"
    and "resolve wd (filepath_Dir (filepath_Join [Root l, getKey l bin]))
           = resolve wd (path_prefix l) @ [key_dir bin]"
    and "filepath_Join [Root l, getKey l bin] \<noteq> []"
proof -
  note a = plain_key_dir [OF assms] and b = plain_key_file [OF assms]
  have d: "dir_prefix (path_prefix l)"
    unfolding path_prefix_def by (rule dir_prefix_clean_prefix)
  show "resolve wd (filepath_Join [Root l, getKey l bin])
           = resolve wd (path_prefix l) @ [key_dir bin, key_file bin]"
    unfolding object_path [OF assms] by (rule resolve_two [OF d a b])
  from b have "CHR ''/'' \<notin> set (key_file bin)"
    by (simp add: plain_element_def)
  then show "resolve wd (filepath_Dir (filepath_Join [Root l, getKey l bin]))
           = resolve wd (path_prefix l) @ [key_dir bin]"
    unfolding object_path [OF assms]
    by (simp add: filepath_Dir_two resolve_Clean resolve_one_dir [OF d a])
  show "filepath_Join [Root l, getKey l bin] \<noteq> []"
    unfolding object_path [OF assms] by simp
qed

subsection \<open>What stays missing in the tree\<close>

lemma lookup_mkdir_all:
  "lookup n cs = Inl ENOENT \<Longrightarrow> length ds < length cs \<Longrightarrow>
   \<forall>c \<in> set cs. name_error c = None \<Longrightarrow>
   lookup (fst (mkdir_all n ds perm)) cs = Inl ENOENT"
proof (induction n ds perm arbitrary: cs rule: mkdir_all.induct)
  case (1 p b es perm)
  then show ?case by simp
next
  case (2 p ents perm)
  then show ?case by simp
next
  case (3 p ents e es perm)
  from 3(3) obtain c cs' where cs: "cs = c # cs'" and len: "length es < length cs'"
    by (cases cs) auto
  from 3(4) cs have nc: "name_error c = None" and ncs: "\<forall>c \<in> set cs'. name_error c = None"
    by simp_all
  let ?child = "case map_of ents e of None \<Rightarrow> Directory perm [] | Some n \<Rightarrow> n"
  show ?case
  proof (cases "name_error e")
    case (Some err)
    with 3(2) show ?thesis by simp
  next
    case None
    note ne = this
    obtain m err where m: "mkdir_all ?child es perm = (m, err)"
      by (cases "mkdir_all ?child es perm")
    with ne have r: "fst (mkdir_all (Directory p ents) (e # es) perm)
        = Directory p (AList.update e m ents)"
      by simp
    show ?thesis
    proof (cases "c = e")
      case False
      with 3(2) cs nc show ?thesis
        unfolding r by simp
    next
      case True
      from len obtain c' cs'' where c': "cs' = c' # cs''"
        by (cases cs') auto
      with ncs have "name_error c' = None"
        by simp
      with 3(2) cs True c' nc have "lookup ?child cs' = Inl ENOENT"
        by (auto split: option.splits)
      from 3(1) [OF ne this len ncs] m have "lookup m cs' = Inl ENOENT"
        by simp
      with cs True nc show ?thesis
        unfolding r by simp
    qed
  qed
qed

lemma lookup_create_other:
  "create_file n ps perm = Inr n' \<Longrightarrow> lookup n cs = Inl ENOENT \<Longrightarrow> length ps = length cs \<Longrightarrow>
   ps \<noteq> cs \<Longrightarrow> lookup n' cs = Inl ENOENT"
proof (induction n ps perm arbitrary: n' cs rule: create_file.induct)
  case (1 p b perm)
  then show ?case by simp
next
  case (2 p ents perm)
  then show ?case by simp
next
  case (3 p b e es perm)
  then show ?case by simp
next
  case (4 p ents e es perm)
  from 4(4) obtain c cs' where cs: "cs = c # cs'" and len: "length es = length cs'"
    by (cases cs) auto
  from 4(2) have ne: "name_error e = None"
    by (auto split: option.splits)
  show ?case
  proof (cases "c = e")
    case False
    with 4(2,3) cs show ?thesis
      by (auto split: option.splits if_splits sum.splits)
  next
    case True
    with 4(5) cs have neq: "es \<noteq> cs'"
      by simp
    show ?thesis
    proof (cases "map_of ents e")
      case None
      with 4(2) ne neq len have False
        by (auto split: if_splits)
      then show ?thesis ..
    next
      case (Some m)
      with 4(2) ne obtain m' where m': "create_file m es perm = Inr m'"
        and n': "n' = Directory p (AList.update e m' ents)"
        by (auto split: sum.splits)
      from 4(3) cs True Some ne have "lookup m cs' = Inl ENOENT"
        by simp
      from 4(1) [OF ne Some m' this len neq] cs True n' ne show ?thesis
        by simp
    qed
  qed
qed

lemma lookup_append_other:
  "lookup n cs = Inl ENOENT \<Longrightarrow> lookup (append_file n ps d) cs = Inl ENOENT"
proof (induction n ps d arbitrary: cs rule: append_file.induct)
  case (1 p b d)
  then show ?case by (cases cs) auto
next
  case (2 p ents d)
  then show ?case by simp
next
  case (3 p b e es d)
  then show ?case by simp
next
  case (4 p ents e es d)
  then show ?case
    by (cases cs) (auto split: option.splits)
qed

section \<open>Objects that are not in the store\<close>

lemma Get_not_found_iff:
  "(Local_Get l fs bin = Inl gobinaries_ErrObjectNotFound)
     = (os_Open fs (filepath_Join [Root l, getKey l bin]) = Inl ENOENT)"
  by (auto simp: Local_Get_def Let_def os_IsNotExist_def split: sum.splits)

lemma path_error_ENOENT: "(path_error path = Some ENOENT) = (path = [])"
  by (simp add: path_error_def)

lemma Get_missing_lookup:
  assumes "plain_target bin"
  shows "(Local_Get l fs bin = Inl gobinaries_ErrObjectNotFound)
     = (path_error (filepath_Join [Root l, getKey l bin]) = None
        \<and> lookup (root fs) (resolve (cwd fs) (path_prefix l) @ [key_dir bin, key_file bin])
            = Inl ENOENT)"
  using resolve_object_path(1) [OF assms, where wd = "cwd fs" and l = l]
    resolve_object_path(3) [OF assms, where l = l]
  by (auto simp: Get_not_found_iff os_Open_def path_error_ENOENT split: option.splits)

lemma writes_keep_missing:
  "lookup (root fs) cs = Inl ENOENT \<Longrightarrow>
   lookup (root (foldl (\<lambda>fs' c. file_Write fs' path c) fs chs)) cs = Inl ENOENT
   \<and> cwd (foldl (\<lambda>fs' c. file_Write fs' path c) fs chs) = cwd fs"
proof (induction chs arbitrary: fs)
  case Nil
  then show ?case by simp
next
  case (Cons c chs)
  have "lookup (root (file_Write fs path c)) cs = Inl ENOENT"
    using Cons.prems by (simp add: file_Write_def lookup_append_other)
  from Cons.IH [OF this] show ?case
    by (simp add: file_Write_def)
qed

lemma key_differs:
  assumes "plain_target bin" and "plain_target b" and "getKey l b \<noteq> getKey l bin"
  shows "[key_dir b, key_file b] \<noteq> [key_dir bin, key_file bin]"
  using assms(3) by (auto simp: getKey_plain [OF assms(1)] getKey_plain [OF assms(2)])

text \<open>\<open>MkdirAll\<close> for the directory of another object, whether it fails or not.\<close>

lemma MkdirAll_keeps_missing:
  assumes "os_MkdirAll fs path perm = (fs1, e)" and "lookup (root fs) cs = Inl ENOENT"
    and "length (resolve (cwd fs) path) < length cs" and "\<forall>c \<in> set cs. name_error c = None"
  shows "lookup (root fs1) cs = Inl ENOENT \<and> cwd fs1 = cwd fs"
proof (cases "path = [] \<or> 4096 \<le> length path")
  case True
  with assms(1,2) show ?thesis
    by (auto simp: os_MkdirAll_def split: if_splits)
next
  case False
  with assms(1) have "root fs1 = fst (mkdir_all (root fs) (resolve (cwd fs) path) (perm AND NOT (umask fs)))"
    and "cwd fs1 = cwd fs"
    by (auto simp: os_MkdirAll_def split: prod.splits)
  with lookup_mkdir_all [OF assms(2,3,4)] show ?thesis
    by simp
qed

lemma Create_keeps_missing:
  assumes T: "plain_target bin" and b: "plain_target b" and k: "getKey l b \<noteq> getKey l bin"
    and v: "valid_path (cwd fs) (filepath_Join [Root l, getKey l bin])"
    and g: "Local_Get l fs bin = Inl gobinaries_ErrObjectNotFound"
  shows "Local_Get l (fst (Local_Create l fs r b)) bin = Inl gobinaries_ErrObjectNotFound
         \<and> cwd (fst (Local_Create l fs r b)) = cwd fs"
proof -
  let ?B = "resolve (cwd fs) (path_prefix l)"
  let ?PT = "?B @ [key_dir bin, key_file bin]"
  let ?path = "filepath_Join [Root l, getKey l b]"
  note rp = resolve_object_path(1,2) [OF b, where wd = "cwd fs" and l = l]
    resolve_object_path(3) [OF b, where l = l]
  from g have m0: "lookup (root fs) ?PT = Inl ENOENT"
    and pe: "path_error (filepath_Join [Root l, getKey l bin]) = None"
    by (simp_all add: Get_missing_lookup [OF T])
  from v have names: "\<forall>c \<in> set ?PT. name_error c = None"
    by (simp add: valid_path_def resolve_object_path(1) [OF T])
  have goal: "Local_Get l fs' bin = Inl gobinaries_ErrObjectNotFound \<and> cwd fs' = cwd fs"
    if "lookup (root fs') ?PT = Inl ENOENT" and "cwd fs' = cwd fs" for fs'
    using that pe by (simp add: Get_missing_lookup [OF T])
  obtain fs1 e where mk: "os_MkdirAll fs (filepath_Dir ?path) 493 = (fs1, e)"
    by (cases "os_MkdirAll fs (filepath_Dir ?path) 493")
  from MkdirAll_keeps_missing [OF mk m0 _ names]
  have m1: "lookup (root fs1) ?PT = Inl ENOENT" and c1: "cwd fs1 = cwd fs"
    by (simp_all add: rp(2))
  show ?thesis
  proof (cases e)
    case (Some err)
    with mk goal [OF m1 c1] show ?thesis
      by (simp add: Local_Create_def Let_def)
  next
    case None
    note mk = mk [unfolded None]
    show ?thesis
    proof (cases "os_Create fs1 ?path")
      case (Inl e)
      with mk goal [OF m1 c1] show ?thesis
        by (simp add: Local_Create_def Let_def)
    next
      case fs2: (Inr fs2)
      then obtain perm where c2: "cwd fs2 = cwd fs"
        and r2: "create_file (root fs1) (?B @ [key_dir b, key_file b]) perm = Inr (root fs2)"
        using c1 by (auto simp: os_Create_def rp(1) split: option.splits sum.splits)
      from lookup_create_other [OF r2 m1] key_differs [OF T b k]
      have m2: "lookup (root fs2) ?PT = Inl ENOENT"
        by simp
      from writes_keep_missing [OF m2, of ?path "chunks r"] c2
      have "Local_Get l (foldl (\<lambda>fs' c. file_Write fs' ?path c) fs2 (chunks r)) bin
              = Inl gobinaries_ErrObjectNotFound
            \<and> cwd (foldl (\<lambda>fs' c. file_Write fs' ?path c) fs2 (chunks r)) = cwd fs"
        by (intro goal) simp_all
      with mk fs2 show ?thesis
        by (simp add: Local_Create_def Let_def copy_to_file_def split: option.splits)
    qed
  qed
qed

lemma creates_keep_missing:
  assumes "plain_target bin"
  shows "\<forall>(r, b) \<in> set ops. plain_target b \<and> getKey l b \<noteq> getKey l bin \<Longrightarrow>
         valid_path (cwd fs) (filepath_Join [Root l, getKey l bin]) \<Longrightarrow>
         Local_Get l fs bin = Inl gobinaries_ErrObjectNotFound \<Longrightarrow>
         Local_Get l (creates l fs ops) bin = Inl gobinaries_ErrObjectNotFound"
proof (induction ops arbitrary: fs)
  case Nil
  then show ?case by (simp add: creates_def)
next
  case (Cons op ops)
  obtain r b where op: "op = (r, b)"
    by (cases op)
  with Cons.prems(1) have b: "plain_target b" "getKey l b \<noteq> getKey l bin"
    by auto
  from Create_keeps_missing [OF assms b Cons.prems(2,3)]
  have g: "Local_Get l (fst (Local_Create l fs r b)) bin = Inl gobinaries_ErrObjectNotFound"
    and c: "cwd (fst (Local_Create l fs r b)) = cwd fs"
    by simp_all
  from Cons.prems(2) c
  have v: "valid_path (cwd (fst (Local_Create l fs r b))) (filepath_Join [Root l, getKey l bin])"
    by simp
  from Cons.IH [OF _ v g] Cons.prems(1) show ?case
    by (simp add: creates_def op)
qed

lemma Get_empty_store:
  assumes "plain_target bin" and "valid_path wd (filepath_Join [Root l, getKey l bin])"
  shows "Local_Get l \<lparr>root = Directory p [], cwd = wd, umask = u\<rparr> bin
           = Inl gobinaries_ErrObjectNotFound"
proof -
  have "lookup (Directory p []) (xs @ [a, b]) = Inl ENOENT"
    if "\<forall>c \<in> set (xs @ [a, b]). name_error c = None" for xs :: "string list" and a b
    using that by (cases xs) simp_all
  with assms(2) show ?thesis
    by (simp add: Get_missing_lookup [OF assms(1)] valid_path_def
        resolve_object_path(1) [OF assms(1)])
qed

text \<open>
  C8, amended: \<open>Get\<close> returns the not-found error (the one of package \<open>gobinaries\<close>, never
  the variable of package \<open>storage\<close>) exactly when the open of the object's path fails
  because the path does not exist, and every other failure of the open is returned wrapped
  as \<open>opening file: ...\<close>, never as not-found: so it is for a path with a NUL byte and for a
  path of 4096 bytes or more, whatever the file system holds. For a plain target whose
  path the system calls accept (no NUL byte, less than 4096 bytes, no element of more than
  255 bytes): on an empty file system \<open>Get\<close> is not-found; and when \<open>Get\<close> is not-found,
  it is still so after any sequence of \<open>Create\<close> calls, failed or not, for plain targets
  whose keys differ from its key.
\<close>

theorem Get_not_found:
  "(Local_Get l fs bin = Inl gobinaries_ErrObjectNotFound)
     = (os_Open fs (filepath_Join [Root l, getKey l bin]) = Inl ENOENT)
   \<and> Local_Get l fs bin \<noteq> Inl storage_ErrObjectNotFound
   \<and> (\<forall>e. Local_Get l fs bin = Inl e \<longrightarrow> e \<noteq> gobinaries_ErrObjectNotFound \<longrightarrow>
          (\<exists>en. en \<noteq> ENOENT \<and> os_Open fs (filepath_Join [Root l, getKey l bin]) = Inl en
                \<and> e = Wrap ''opening file'' (Errno en)))
   \<and> (CHR 0x00 \<in> set (filepath_Join [Root l, getKey l bin]) \<longrightarrow>
        Local_Get l fs bin = Inl (Wrap ''opening file'' (Errno EINVAL)))
   \<and> (CHR 0x00 \<notin> set (filepath_Join [Root l, getKey l bin]) \<longrightarrow>
        4096 \<le> length (filepath_Join [Root l, getKey l bin]) \<longrightarrow>
        Local_Get l fs bin = Inl (Wrap ''opening file'' (Errno ENAMETOOLONG)))
   \<and> (plain_target bin \<longrightarrow> valid_path wd (filepath_Join [Root l, getKey l bin]) \<longrightarrow>
        Local_Get l \<lparr>root = Directory p [], cwd = wd, umask = u\<rparr> bin
          = Inl gobinaries_ErrObjectNotFound)
   \<and> (plain_target bin \<longrightarrow> valid_path (cwd fs) (filepath_Join [Root l, getKey l bin]) \<longrightarrow>
        (\<forall>(r, b) \<in> set ops. plain_target b \<and> getKey l b \<noteq> getKey l bin) \<longrightarrow>
        Local_Get l fs bin = Inl gobinaries_ErrObjectNotFound \<longrightarrow>
        Local_Get l (creates l fs ops) bin = Inl gobinaries_ErrObjectNotFound)"
proof (intro conjI allI impI)
  show "(Local_Get l fs bin = Inl gobinaries_ErrObjectNotFound)
     = (os_Open fs (filepath_Join [Root l, getKey l bin]) = Inl ENOENT)"
    by (rule Get_not_found_iff)
next
  show "Local_Get l fs bin \<noteq> Inl storage_ErrObjectNotFound"
    by (auto simp: Local_Get_def Let_def split: sum.splits)
next
  fix e assume "Local_Get l fs bin = Inl e" and "e \<noteq> gobinaries_ErrObjectNotFound"
  then show "\<exists>en. en \<noteq> ENOENT \<and> os_Open fs (filepath_Join [Root l, getKey l bin]) = Inl en
                \<and> e = Wrap ''opening file'' (Errno en)"
    by (auto simp: Local_Get_def Let_def os_IsNotExist_def split: sum.splits if_splits)
next
  assume "CHR 0x00 \<in> set (filepath_Join [Root l, getKey l bin])"
  then show "Local_Get l fs bin = Inl (Wrap ''opening file'' (Errno EINVAL))"
    by (auto simp: Local_Get_def Let_def os_IsNotExist_def os_Open_def path_error_def)
next
  assume "CHR 0x00 \<notin> set (filepath_Join [Root l, getKey l bin])"
    and "4096 \<le> length (filepath_Join [Root l, getKey l bin])"
  then show "Local_Get l fs bin = Inl (Wrap ''opening file'' (Errno ENAMETOOLONG))"
    by (auto simp: Local_Get_def Let_def os_IsNotExist_def os_Open_def path_error_def)
next
  assume "plain_target bin" and "valid_path wd (filepath_Join [Root l, getKey l bin])"
  then show "Local_Get l \<lparr>root = Directory p [], cwd = wd, umask = u\<rparr> bin
               = Inl gobinaries_ErrObjectNotFound"
    by (rule Get_empty_store)
next
  assume a: "plain_target bin" "valid_path (cwd fs) (filepath_Join [Root l, getKey l bin])"
    "\<forall>(r, b) \<in> set ops. plain_target b \<and> getKey l b \<noteq> getKey l bin"
    "Local_Get l fs bin = Inl gobinaries_ErrObjectNotFound"
  show "Local_Get l (creates l fs ops) bin = Inl gobinaries_ErrObjectNotFound"
    by (rule creates_keep_missing [OF a(1,3,2,4)])
qed

text \<open>
  C8, as stated, fails: the claim is that \<open>Get\<close> for a target for which no \<open>Create\<close> has
  occurred returns not-found, never a generic error. After a \<open>Create\<close> for the package path
  \<open>github.com/a/b-c\<close> alone, \<open>Get\<close> for the package path \<open>github.com/a/b/c\<close>, which was
  not-found before, returns the object of the other target. On the empty file system
  \<open>Get\<close> for a target with a NUL byte in its version returns a generic error. And \<open>Get\<close>
  for a target with a version of 300 bytes, not-found on the empty file system, returns a
  generic error after a \<open>Create\<close> for another version of the same package.
\<close>

theorem Get_finds_colliding_target:
  "Local_Get store0 empty_fs target_c = Inl gobinaries_ErrObjectNotFound
   \<and> Path target_b \<noteq> Path target_c
   \<and> snd (Local_Create store0 empty_fs reader_whole target_b) = None
   \<and> Local_Get store0 (fst (Local_Create store0 empty_fs reader_whole target_b)) target_c
       = Inr (File 420 [1, 2, 3])
   \<and> Local_Get store0 empty_fs (target_a\<lparr>Version := [CHR ''v'', CHR 0x00]\<rparr>)
       = Inl (Wrap ''opening file'' (Errno EINVAL))
   \<and> Local_Get store0 empty_fs (target_a\<lparr>Version := replicate 300 (CHR ''9'')\<rparr>)
       = Inl gobinaries_ErrObjectNotFound
   \<and> snd (Local_Create store0 empty_fs reader_whole target_a) = None
   \<and> Local_Get store0 (fst (Local_Create store0 empty_fs reader_whole target_a))
         (target_a\<lparr>Version := replicate 300 (CHR ''9'')\<rparr>)
       = Inl (Wrap ''opening file'' (Errno ENAMETOOLONG))"
  by code_simp

theorem Get_not_found_witness:
  "Local_Get store0 empty_fs target_a = Inl gobinaries_ErrObjectNotFound
   \<and> Local_Get store0
       (creates store0 empty_fs [(reader_whole, target_b), (reader_broken, target_d)]) target_a
       = Inl gobinaries_ErrObjectNotFound
   \<and> Local_Get store0
       (creates store0 empty_fs [(reader_whole, target_b), (reader_broken, target_d)]) target_b
       = Inr (File 420 [1, 2, 3])
   \<and> Local_Get store0 empty_fs (target_a\<lparr>Version := [CHR ''v'', CHR 0x00]\<rparr>)
       = Inl (Wrap ''opening file'' (Errno EINVAL))"
proof -
  let ?ops = "[(reader_whole, target_b), (reader_broken, target_d)]"
  let ?n = "target_a\<lparr>Version := [CHR ''v'', CHR 0x00]\<rparr>"
  have pt: "plain_target target_a" "plain_target target_b" "plain_target target_d"
    by (simp_all add: plain_target_def target_a_def target_b_def target_d_def)
  have k: "getKey store0 target_b \<noteq> getKey store0 target_a"
    "getKey store0 target_d \<noteq> getKey store0 target_a"
    by code_simp+
  have v: "valid_path [] (filepath_Join [Root store0, getKey store0 target_a])"
    by code_simp
  have nul: "CHR 0x00 \<in> set (filepath_Join [Root store0, getKey store0 ?n])"
    by code_simp
  from pt k have h: "\<forall>(r, b) \<in> set ?ops. plain_target b \<and> getKey store0 b \<noteq> getKey store0 target_a"
    by simp
  note t = Get_not_found [of store0 empty_fs target_a "[]" 493 18 ?ops]
  from t pt(1) v have e: "Local_Get store0 empty_fs target_a = Inl gobinaries_ErrObjectNotFound"
    by (simp add: empty_fs_def)
  have cw: "cwd empty_fs = []"
    by (simp add: empty_fs_def)
  from t [THEN conjunct2, THEN conjunct2, THEN conjunct2, THEN conjunct2, THEN conjunct2,
      THEN conjunct2] pt(1) v h e
  have "Local_Get store0 (creates store0 empty_fs ?ops) target_a = Inl gobinaries_ErrObjectNotFound"
    unfolding cw by blast
  moreover have "Local_Get store0 (creates store0 empty_fs ?ops) target_b
      = Inr (File 420 [1, 2, 3])"
    by code_simp
  moreover from Get_not_found [of store0 empty_fs ?n] nul
  have "Local_Get store0 empty_fs ?n = Inl (Wrap ''opening file'' (Errno EINVAL))"
    by blast
  ultimately show ?thesis
    using e by blast
qed

section \<open>The workspace of a build\<close>

subsection \<open>The nodes a walk visits\<close>

lemma lookup_append: "lookup r xs = Inr n \<Longrightarrow> lookup r (xs @ es) = lookup n es"
  by (induction r xs rule: lookup.induct) (auto split: option.splits)

lemma filepath_Clean_nonempty: "filepath_Clean x \<noteq> []"
  by (simp add: filepath_Clean_def Let_def)

text \<open>The path the walk joins for an entry resolves to the entry.\<close>

lemma resolve_Join_name:
  assumes "path \<noteq> []" and "plain_element name"
  shows "resolve wd (filepath_Join [path, name]) = resolve wd path @ [name]"
    and "filepath_Join [path, name] \<noteq> []"
proof -
  from assms(2) have n: "CHR ''/'' \<notin> set name" "name \<noteq> []" "name \<noteq> ''.''" "name \<noteq> ''..''"
    by (simp_all add: plain_element_def)
  have j: "filepath_Join [path, name] = filepath_Clean (path @ CHR ''/'' # name)"
    using assms(1) by (simp add: filepath_Join_def)
  have "strings_Split (path @ CHR ''/'' # name) (CHR ''/'') = strings_Split path (CHR ''/'') @ [name]"
    using n(1) by (simp add: strings_Split_append strings_Split_plain)
  moreover have "hd (path @ CHR ''/'' # name) = hd path"
    using assms(1) by simp
  ultimately have "resolve wd (path @ CHR ''/'' # name) = resolve wd path @ [name]"
    using assms(1) n by (simp add: resolve_def resolve_step_simps)
  then show "resolve wd (filepath_Join [path, name]) = resolve wd path @ [name]"
    by (simp add: j resolve_Clean)
  show "filepath_Join [path, name] \<noteq> []"
    by (simp add: j filepath_Clean_nonempty)
qed

text \<open>
  In a tree with distinct names, every visit of the walk is of the node that the path of
  the visit leads to, and a visit below the root of the walk has a path that \<open>Lstat\<close> did
  not refuse.
\<close>

lemma walk_visits:
  "wf_node n \<Longrightarrow> path \<noteq> [] \<Longrightarrow> (q, m) \<in> set (fst (walk_node path n)) \<Longrightarrow>
     \<exists>es. resolve wd q = resolve wd path @ es \<and> lookup n es = Inr m
          \<and> (if es = [] then q = path else path_error q = None)"
  "\<forall>x \<in> set ents. plain_element (fst x) \<and> wf_node (snd x) \<Longrightarrow> path \<noteq> [] \<Longrightarrow>
   (q, m) \<in> set (fst (walk_entries path ents)) \<Longrightarrow>
     \<exists>name c es. (name, c) \<in> set ents \<and> name_error name = None
          \<and> resolve wd q = resolve wd path @ name # es \<and> lookup c es = Inr m
          \<and> path_error q = None"
proof (induction path n and path ents arbitrary: q m and q m rule: walk_node_walk_entries.induct)
  case (1 path p b)
  then show ?case by simp
next
  case (2 path p ents)
  show ?case
  proof (cases "(q, m) = (path, Directory p ents)")
    case True
    then show ?thesis
      by (intro exI [of _ "[]"]) simp
  next
    case False
    with 2(4) have v: "(q, m) \<in> set (fst (walk_entries path (sort_key fst ents)))"
      by (auto split: prod.splits)
    from 2(2) have w: "\<forall>x \<in> set (sort_key fst ents). plain_element (fst x) \<and> wf_node (snd x)"
      and d: "distinct (map fst ents)"
      by simp_all
    from 2(1) [OF w 2(3) v] obtain name c es where
      e: "(name, c) \<in> set ents" "name_error name = None"
        "resolve wd q = resolve wd path @ name # es" "lookup c es = Inr m" "path_error q = None"
      by auto
    from d e(1) have "map_of ents name = Some c"
      by simp
    with e show ?thesis
      by (intro exI [of _ "name # es"]) simp
  qed
next
  case (3 path)
  then show ?case by simp
next
  case (4 path name n rest)
  let ?f = "filepath_Join [path, name]"
  from 4(3) have pn: "plain_element name" and wn: "wf_node n"
    and wr: "\<forall>x \<in> set rest. plain_element (fst x) \<and> wf_node (snd x)"
    by simp_all
  note rj = resolve_Join_name(1) [OF 4(4) pn, where wd = wd] resolve_Join_name(2) [OF 4(4) pn]
  show ?case
  proof (cases "lstat_refused ?f name")
    case True
    with 4(5) show ?thesis by simp
  next
    case False
    then have ok: "path_error ?f = None" "name_error name = None"
      by (simp_all add: lstat_refused_def)
    obtain vs b where wn': "walk_node ?f n = (vs, b)"
      by (cases "walk_node ?f n")
    show ?thesis
    proof (cases "(q, m) \<in> set vs")
      case True
      with 4(1) [OF False wn rj(2), of q m] wn' obtain es where
        e: "resolve wd q = resolve wd ?f @ es" "lookup n es = Inr m"
          "if es = [] then q = ?f else path_error q = None"
        by auto
      from e(3) ok(1) have "path_error q = None"
        by (auto split: if_splits)
      with e(1,2) ok(2) rj(1) show ?thesis
        by (intro exI [of _ name] exI [of _ n] exI [of _ es]) simp
    next
      case nv: False
      with 4(5) False wn' have b: "b" and v: "(q, m) \<in> set (fst (walk_entries path rest))"
        by (auto split: if_splits prod.splits)
      from 4(2) [OF False wn' [symmetric] b wr 4(4) v] show ?thesis
        by auto
    qed
  qed
qed

lemma walk_opens:
  assumes "os_Lstat fs dir = Inr n" and "wf_node n" and "(q, m) \<in> set (walk dir n)"
  shows "os_Open fs q = Inr m"
proof -
  from assms(1) have pe: "path_error dir = None"
    and l: "lookup (root fs) (resolve (cwd fs) dir) = Inr n"
    by (auto simp: os_Lstat_def split: option.splits)
  from pe have ne: "dir \<noteq> []"
    by (auto simp: path_error_def)
  from walk_visits(1) [OF assms(2) ne, of q m "cwd fs"] assms(3) obtain es where
    e: "resolve (cwd fs) q = resolve (cwd fs) dir @ es" "lookup n es = Inr m"
      "if es = [] then q = dir else path_error q = None"
    by (auto simp: walk_def)
  from e(3) pe have "path_error q = None"
    by (auto split: if_splits)
  with lookup_append [OF l, of es] e(1,2) show ?thesis
    by (simp add: os_Open_def)
qed

subsection \<open>The file that is checked and copied\<close>

lemma two_Lstat:
  "os_Lstat \<lparr>root = two_tree, cwd = [], umask = 18\<rparr> ''/root/.cache/gobinaries/example.com/tool''
   = Inr (Directory 493
     [(''pkg'', Directory 493 [(''x.go'', File 292 [7])]),
      (''bin'', Directory 493 [(''tool'', File 493 [4, 5]), (''a'', File 448 [9])])])"
  by code_simp

lemma two_candidates:
  "filter has_exec_bit (walk ''/root/.cache/gobinaries/example.com/tool'' (Directory 493
     [(''pkg'', Directory 493 [(''x.go'', File 292 [7])]),
      (''bin'', Directory 493 [(''tool'', File 493 [4, 5]), (''a'', File 448 [9])])]))
   = [(''/root/.cache/gobinaries/example.com/tool/bin/a'', File 448 [9]),
      (''/root/.cache/gobinaries/example.com/tool/bin/tool'', File 493 [4, 5])]"
  by code_simp

lemma two_wf:
  "wf_node (Directory 493
     [(''pkg'', Directory 493 [(''x.go'', File 292 [7])]),
      (''bin'', Directory 493 [(''tool'', File 493 [4, 5]), (''a'', File 448 [9])])])"
  by code_simp

lemma written_copy:
  "written (fst (copy_to_writer w (File p b)))
     = written w @ (case room w of None \<Rightarrow> b | Some k \<Rightarrow> take k b)"
  by (simp add: copy_to_writer_def split: option.splits)

text \<open>
  C10. The scan leaves in \<open>dst\<close> the path of the last visit, in walk order, of a node that
  is no directory and has some execute bit (the empty path when there is none). The file
  opened at \<open>dst\<close> is the one \<open>isExecutable\<close> checks: when it has all three execute bits it is
  the one copied to the writer, and otherwise \<open>Write\<close> returns \<open>ErrNotExecutable\<close>. So there
  are builds where \<open>Write\<close> returns \<open>ErrNotExecutable\<close> although the walk visits a file with
  all three execute bits. In a workspace whose directories have distinct names: the last
  such visit is of a file, \<open>os.Open\<close> at its path opens this file, and when it has all three
  execute bits its bytes are appended to what the writer holds, all of them or as many as
  the writer accepts.
\<close>

theorem Write_validates_last_candidate:
  "Walk_dst fs dir =
     (case os_Lstat fs dir of
        Inl e \<Rightarrow> []
      | Inr n \<Rightarrow>
          (case filter has_exec_bit (walk dir n) of
             [] \<Rightarrow> []
           | c # cs \<Rightarrow> fst (last (c # cs))))
   \<and> (UserHomeDir s = Inr h \<longrightarrow> install s bin (workspace s bin) = (s1, None) \<longrightarrow>
        stat_fault s1 = None \<longrightarrow>
        os_Open (files s1) (Walk_dst (files s1) (workspace s bin)) = Inr f \<longrightarrow>
        (if isExecutable (Mode f)
         then fst (snd (Write s w bin)) = fst (copy_to_writer w f)
         else Write s w bin = (s1, w, Some ErrNotExecutable)))
   \<and> (\<exists>s' w' bin' s1' n v. install s' bin' (workspace s' bin') = (s1', None)
         \<and> os_Lstat (files s1') (workspace s' bin') = Inr n
         \<and> v \<in> set (walk (workspace s' bin') n)
         \<and> has_exec_bit v \<and> isExecutable (Mode (snd v))
         \<and> Write s' w' bin' = (s1', w', Some ErrNotExecutable))
   \<and> (UserHomeDir s = Inr h \<longrightarrow> install s bin (workspace s bin) = (s1, None) \<longrightarrow>
        stat_fault s1 = None \<longrightarrow>
        os_Lstat (files s1) (workspace s bin) = Inr n \<longrightarrow> wf_node n \<longrightarrow>
        filter has_exec_bit (walk (workspace s bin) n) \<noteq> [] \<longrightarrow>
        last (filter has_exec_bit (walk (workspace s bin) n)) = (q, m) \<longrightarrow>
        (\<exists>p b. m = File p b \<and> os_Open (files s1) q = Inr m
           \<and> (if isExecutable (Mode m)
              then written (fst (snd (Write s w bin)))
                     = written w @ (case room w of None \<Rightarrow> b | Some k \<Rightarrow> take k b)
              else Write s w bin = (s1, w, Some ErrNotExecutable))))"
proof (intro conjI impI)
  show "Walk_dst fs dir =
     (case os_Lstat fs dir of
        Inl e \<Rightarrow> []
      | Inr n \<Rightarrow>
          (case filter has_exec_bit (walk dir n) of
             [] \<Rightarrow> []
           | c # cs \<Rightarrow> fst (last (c # cs))))"
    by (rule Walk_dst_last)
next
  assume a: "UserHomeDir s = Inr h" "install s bin (workspace s bin) = (s1, None)"
    "stat_fault s1 = None"
    "os_Open (files s1) (Walk_dst (files s1) (workspace s bin)) = Inr f"
  show "if isExecutable (Mode f)
        then fst (snd (Write s w bin)) = fst (copy_to_writer w f)
        else Write s w bin = (s1, w, Some ErrNotExecutable)"
    using a by (cases rule: Write_outcome [of s w bin]) auto
next
  let ?s = "world_with built_tree"
  let ?dir = "''/root/.cache/gobinaries/example.com/tool''"
  let ?s1 = "?s\<lparr>files := \<lparr>root = built_tree, cwd = [], umask = 18\<rparr>\<rparr>"
  have i: "install ?s target_v3 (workspace ?s target_v3) = (?s1, None)"
    by (rule install_world_with)
  have w: "workspace ?s target_v3 = ?dir"
    by (rule workspace_world_with)
  have st: "stat_fault ?s1 = None"
    by (simp add: world_with_def)
  have o: "os_Open (files ?s1) (Walk_dst (files ?s1) (workspace ?s target_v3)) = Inr (File 484 [1, 2, 3])"
    by (simp add: w built_dst built_Open)
  have x: "Write ?s writer0 target_v3 = (?s1, writer0, Some ErrNotExecutable)"
    using world_with_home [of built_tree] i st o example_modes(2)
    by (cases rule: Write_outcome [of ?s writer0 target_v3]) auto
  have l: "os_Lstat (files ?s1) (workspace ?s target_v3) = Inr (Directory 493
     [(''pkg'', Directory 493 [(''x.go'', File 292 [7])]),
      (''bin'', Directory 493 [(''b'', File 484 [1, 2, 3]), (''a'', File 493 [4, 5])])])"
    by (simp add: w built_Lstat)
  have m: "(''/root/.cache/gobinaries/example.com/tool/bin/a'', File 493 [4, 5])
      \<in> set (walk (workspace ?s target_v3) (Directory 493
     [(''pkg'', Directory 493 [(''x.go'', File 292 [7])]),
      (''bin'', Directory 493 [(''b'', File 484 [1, 2, 3]), (''a'', File 493 [4, 5])])]))"
    unfolding w by (rule built_member)
  have e: "has_exec_bit (''/root/.cache/gobinaries/example.com/tool/bin/a'', File 493 [4, 5])"
    "isExecutable (Mode (snd (''/root/.cache/gobinaries/example.com/tool/bin/a'', File 493 [4, 5])))"
    using example_modes by (simp_all del: Mode.simps)
  from i l m e x
  show "\<exists>s' w' bin' s1' n v. install s' bin' (workspace s' bin') = (s1', None)
         \<and> os_Lstat (files s1') (workspace s' bin') = Inr n
         \<and> v \<in> set (walk (workspace s' bin') n)
         \<and> has_exec_bit v \<and> isExecutable (Mode (snd v))
         \<and> Write s' w' bin' = (s1', w', Some ErrNotExecutable)"
    by blast
next
  let ?cs = "filter has_exec_bit (walk (workspace s bin) n)"
  assume a: "UserHomeDir s = Inr h" "install s bin (workspace s bin) = (s1, None)"
    "stat_fault s1 = None"
    and l: "os_Lstat (files s1) (workspace s bin) = Inr n" and wf: "wf_node n"
    and ne: "?cs \<noteq> []" and la: "last ?cs = (q, m)"
  from ne la have "(q, m) \<in> set ?cs"
    by (metis last_in_set)
  then have v: "(q, m) \<in> set (walk (workspace s bin) n)" and x: "has_exec_bit (q, m)"
    by simp_all
  from x obtain p b where m: "m = File p b"
    by (cases m) (auto simp: has_exec_bit_def IsDir_Directory simp del: Mode.simps)
  from ne obtain c cs where cs: "?cs = c # cs"
    by (cases ?cs) auto
  with la l have d: "Walk_dst (files s1) (workspace s bin) = q"
    by (simp add: Walk_dst_last)
  from walk_opens [OF l wf v] have o: "os_Open (files s1) q = Inr m" .
  have "if isExecutable (Mode m)
        then fst (snd (Write s w bin)) = fst (copy_to_writer w m)
        else Write s w bin = (s1, w, Some ErrNotExecutable)"
    using a o d by (cases rule: Write_outcome [of s w bin]) auto
  then have "if isExecutable (Mode m)
        then written (fst (snd (Write s w bin)))
               = written w @ (case room w of None \<Rightarrow> b | Some k \<Rightarrow> take k b)
        else Write s w bin = (s1, w, Some ErrNotExecutable)"
    by (simp add: m written_copy del: Mode.simps)
  with m o show "\<exists>p b. m = File p b \<and> os_Open (files s1) q = Inr m
           \<and> (if isExecutable (Mode m)
              then written (fst (snd (Write s w bin)))
                     = written w @ (case room w of None \<Rightarrow> b | Some k \<Rightarrow> take k b)
              else Write s w bin = (s1, w, Some ErrNotExecutable))"
    by blast
qed

theorem Write_validates_last_candidate_witness:
  "Walk_dst \<lparr>root = built_tree, cwd = [], umask = 18\<rparr> ''/root/.cache/gobinaries/example.com/tool''
     = ''/root/.cache/gobinaries/example.com/tool/bin/b''
   \<and> isExecutable (Mode (File 493 [4, 5]))
   \<and> Write (world_with built_tree) writer0 target_v3
     = ((world_with built_tree)\<lparr>files := \<lparr>root = built_tree, cwd = [], umask = 18\<rparr>\<rparr>, writer0,
        Some ErrNotExecutable)
   \<and> last (filter has_exec_bit (walk ''/root/.cache/gobinaries/example.com/tool'' (Directory 493
       [(''pkg'', Directory 493 [(''x.go'', File 292 [7])]),
        (''bin'', Directory 493 [(''tool'', File 493 [4, 5]), (''a'', File 448 [9])])])))
     = (''/root/.cache/gobinaries/example.com/tool/bin/tool'', File 493 [4, 5])
   \<and> written (fst (snd (Write (world_with two_tree) writer0 target_v3))) = [4, 5]
   \<and> written (fst (snd (Write (world_with two_tree) \<lparr>written = [8], room = Some 1\<rparr> target_v3)))
     = [8, 4]"
proof -
  let ?s = "world_with built_tree"
  let ?s1 = "?s\<lparr>files := \<lparr>root = built_tree, cwd = [], umask = 18\<rparr>\<rparr>"
  have i: "install ?s target_v3 (workspace ?s target_v3) = (?s1, None)"
    by (rule install_world_with)
  have st: "stat_fault ?s1 = None"
    by (simp add: world_with_def)
  have o: "os_Open (files ?s1) (Walk_dst (files ?s1) (workspace ?s target_v3))
             = Inr (File 484 [1, 2, 3])"
    by (simp add: workspace_world_with built_dst built_Open)
  from Write_validates_last_candidate
      [of _ _ ?s "''/root''" target_v3 ?s1 "File 484 [1, 2, 3]" writer0]
  have "if isExecutable (Mode (File 484 [1, 2, 3]))
        then fst (snd (Write ?s writer0 target_v3)) = fst (copy_to_writer writer0 (File 484 [1, 2, 3]))
        else Write ?s writer0 target_v3 = (?s1, writer0, Some ErrNotExecutable)"
    using world_with_home [of built_tree] i st o by blast
  then have a: "Write ?s writer0 target_v3 = (?s1, writer0, Some ErrNotExecutable)"
    using example_modes(2) by (simp del: Mode.simps)
  let ?t = "world_with two_tree"
  let ?t1 = "?t\<lparr>files := \<lparr>root = two_tree, cwd = [], umask = 18\<rparr>\<rparr>"
  let ?n = "Directory 493
       [(''pkg'', Directory 493 [(''x.go'', File 292 [7])]),
        (''bin'', Directory 493 [(''tool'', File 493 [4, 5]), (''a'', File 448 [9])])]"
  let ?q = "''/root/.cache/gobinaries/example.com/tool/bin/tool''"
  have ws: "workspace ?t target_v3 = ''/root/.cache/gobinaries/example.com/tool''"
    by (rule workspace_world_with)
  have i2: "install ?t target_v3 (workspace ?t target_v3) = (?t1, None)"
    by (rule install_world_with)
  have st2: "stat_fault ?t1 = None"
    by (simp add: world_with_def)
  have l2: "os_Lstat (files ?t1) (workspace ?t target_v3) = Inr ?n"
    by (simp add: ws two_Lstat)
  have c2: "filter has_exec_bit (walk (workspace ?t target_v3) ?n) \<noteq> []"
    and la: "last (filter has_exec_bit (walk (workspace ?t target_v3) ?n)) = (?q, File 493 [4, 5])"
    unfolding ws two_candidates by simp_all
  have x: "isExecutable (Mode (File 493 [4, 5]))"
    by (rule example_modes(1))
  have r: "written (fst (snd (Write ?t w target_v3)))
            = written w @ (case room w of None \<Rightarrow> [4, 5] | Some k \<Rightarrow> take k [4, 5])" for w
    using Write_validates_last_candidate
      [of _ _ ?t "''/root''" target_v3 ?t1 _ w ?n ?q "File 493 [4, 5]"]
      world_with_home [of two_tree] i2 st2 l2 two_wf c2 la x
    by (auto simp del: Mode.simps)
  from r [of writer0] have b: "written (fst (snd (Write ?t writer0 target_v3))) = [4, 5]"
    by (simp add: writer0_def)
  from r [of "\<lparr>written = [8], room = Some 1\<rparr>"]
  have c: "written (fst (snd (Write ?t \<lparr>written = [8], room = Some 1\<rparr> target_v3))) = [8, 4]"
    by simp
  from la have "last (filter has_exec_bit (walk ''/root/.cache/gobinaries/example.com/tool'' ?n))
     = (?q, File 493 [4, 5])"
    unfolding ws .
  with a b c built_dst example_modes(1) show ?thesis
    by blast
qed

subsection \<open>The workspace directory\<close>

lemma lookup_remove_at:
  "lookup n es = Inr m \<Longrightarrow> es \<noteq> [] \<Longrightarrow> lookup (remove_at n es) es = Inl ENOENT"
proof (induction n es arbitrary: m rule: remove_at.induct)
  case (1 p b es)
  then show ?case by (cases es) auto
next
  case (2 p ents)
  then show ?case by simp
next
  case (3 p ents e)
  then show ?case
    by (auto simp: delete_conv' split: option.splits)
next
  case (4 p ents e v va)
  from 4(2) obtain x where ne: "name_error e = None" and x: "map_of ents e = Some x"
    and l: "lookup x (v # va) = Inr m"
    by (auto split: option.splits)
  from 4(1) [OF x l] have "lookup (remove_at x (v # va)) (v # va) = Inl ENOENT"
    by simp
  with ne x show ?case
    by simp
qed

text \<open>When \<open>os.RemoveAll\<close> returns no error, nothing is left at the path.\<close>

lemma RemoveAll_gone:
  assumes "os_RemoveAll fs path = (fs2, None)"
  shows "os_Lstat fs2 path = Inl ENOENT"
proof (cases "path = []")
  case True
  with assms show ?thesis
    by (simp add: os_RemoveAll_def os_Lstat_def path_error_def)
next
  case False
  with assms have pe: "path_error path = None"
    by (auto simp: os_RemoveAll_def split: if_splits option.splits)
  show ?thesis
  proof (cases "lookup (root fs) (resolve (cwd fs) path)")
    case (Inl e)
    with assms False pe have "fs2 = fs" and "e = ENOENT"
      by (auto simp: os_RemoveAll_def Let_def split: if_splits)
    with Inl pe show ?thesis
      by (simp add: os_Lstat_def)
  next
    case (Inr n)
    with assms False pe have ne: "resolve (cwd fs) path \<noteq> []"
      and fs2: "fs2 = fs\<lparr>root := remove_at (root fs) (resolve (cwd fs) path)\<rparr>"
      by (auto simp: os_RemoveAll_def Let_def split: if_splits)
    from lookup_remove_at [OF Inr ne] pe show ?thesis
      by (simp add: os_Lstat_def fs2)
  qed
qed

text \<open>Joining plain elements under the root gives the elements with separators between.\<close>

lemma strings_Join_append:
  "xs \<noteq> [] \<Longrightarrow> ys \<noteq> [] \<Longrightarrow>
   strings_Join (xs @ ys) sep = strings_Join xs sep @ sep @ strings_Join ys sep"
  by (induction xs sep rule: strings_Join.induct) (auto simp: neq_Nil_conv)

lemma strings_Split_Join:
  "zs \<noteq> [] \<Longrightarrow> \<forall>e \<in> set zs. CHR ''/'' \<notin> set e \<Longrightarrow>
   strings_Split (strings_Join zs ''/'') (CHR ''/'') = zs"
  by (induction zs "''/''" rule: strings_Join.induct)
    (simp_all add: strings_Split_plain strings_Split_append)

lemma foldl_clean_step_plain:
  "\<forall>e \<in> set zs. plain_element e \<Longrightarrow> foldl (clean_step r) acc zs = acc @ zs"
  by (induction zs arbitrary: acc) (simp_all add: clean_step_plain)

lemma filepath_Clean_rooted_plain:
  assumes "zs \<noteq> []" and "\<forall>e \<in> set zs. plain_element e"
  shows "filepath_Clean (CHR ''/'' # strings_Join zs ''/'') = CHR ''/'' # strings_Join zs ''/''"
proof -
  from assms(2) have "\<forall>e \<in> set zs. CHR ''/'' \<notin> set e"
    by (simp add: plain_element_def)
  from strings_Split_Join [OF assms(1) this]
  have "clean_elems (CHR ''/'' # strings_Join zs ''/'') = zs"
    using assms(2) by (simp add: clean_elems_def clean_step_empty foldl_clean_step_plain)
  then show ?thesis
    by (simp add: filepath_Clean_def)
qed

lemma workspace_form:
  assumes "hs \<noteq> []" and "ms \<noteq> []" and "\<forall>e \<in> set (hs @ ms). plain_element e"
  shows "filepath_Join [CHR ''/'' # strings_Join hs ''/'', ''.cache'', ''gobinaries'',
                        strings_Join ms ''/'']
         = CHR ''/'' # strings_Join hs ''/'' @ ''/.cache/gobinaries/'' @ strings_Join ms ''/''"
proof -
  let ?zs = "hs @ ''.cache'' # ''gobinaries'' # ms"
  from assms(2) obtain m ms' where ms: "ms = m # ms'"
    by (cases ms) auto
  have "strings_Join ?zs ''/'' = strings_Join hs ''/'' @ ''/'' @ strings_Join (''.cache'' # ''gobinaries'' # ms) ''/''"
    using assms(1) by (intro strings_Join_append) simp_all
  then have j: "strings_Join ?zs ''/''
      = strings_Join hs ''/'' @ ''/.cache/gobinaries/'' @ strings_Join ms ''/''"
    by (simp add: ms)
  have p: "\<forall>e \<in> set ?zs. plain_element e"
    using assms(3) by (auto simp: plain_element_def)
  have "filepath_Join [CHR ''/'' # strings_Join hs ''/'', ''.cache'', ''gobinaries'',
                        strings_Join ms ''/'']
      = filepath_Clean (CHR ''/'' # strings_Join ?zs ''/'')"
    by (simp add: filepath_Join_def j)
  also have "\<dots> = CHR ''/'' # strings_Join ?zs ''/''"
    by (rule filepath_Clean_rooted_plain [OF _ p]) simp
  finally show ?thesis
    by (simp only: j)
qed

text \<open>\<open>install\<close> and \<open>Write\<close> read the effect of running a command at one command only.\<close>

lemma install_run:
  assumes "\<forall>env. exec_environ (Env (install_cmd (environMap s)
                (case UserHomeDir s of Inl e \<Rightarrow> [] | Inr h \<Rightarrow> h) bin dir)) = Inr env \<longrightarrow>
             run' ((install_cmd (environMap s)
                (case UserHomeDir s of Inl e \<Rightarrow> [] | Inr h \<Rightarrow> h) bin dir)\<lparr>Env := env\<rparr>) (files s)
             = run s ((install_cmd (environMap s)
                (case UserHomeDir s of Inl e \<Rightarrow> [] | Inr h \<Rightarrow> h) bin dir)\<lparr>Env := env\<rparr>) (files s)"
  shows "install (s\<lparr>run := run'\<rparr>) bin dir
           = (case install s bin dir of (s1, e) \<Rightarrow> (s1\<lparr>run := run'\<rparr>, e))"
proof -
  define C0 where "C0 = install_cmd (environMap s)
                (case UserHomeDir s of Inl e \<Rightarrow> [] | Inr h \<Rightarrow> h) bin dir"
  from assms have a: "exec_environ (Env C0) = Inr env \<Longrightarrow>
      run' (C0\<lparr>Env := env\<rparr>) (files s) = run s (C0\<lparr>Env := env\<rparr>) (files s)" for env
    unfolding C0_def by blast
  have "command (s\<lparr>run := run'\<rparr>) C0 = (case command s C0 of (s1, e) \<Rightarrow> (s1\<lparr>run := run'\<rparr>, e))"
  proof (cases "look_fault s")
    case (Some err)
    then show ?thesis
      by (simp add: command_def)
  next
    case None
    note lf = this
    show ?thesis
    proof (cases "exec_environ (Env C0)")
      case (Inl err)
      with lf show ?thesis
        by (simp add: command_def)
    next
      case (Inr env)
      obtain fs' err stderr where r: "run s (C0\<lparr>Env := env\<rparr>) (files s) = (fs', err, stderr)"
        by (cases "run s (C0\<lparr>Env := env\<rparr>) (files s)")
      with a [OF Inr] have r': "run' (C0\<lparr>Env := env\<rparr>) (files s) = (fs', err, stderr)"
        by simp
      from lf Inr r r' show ?thesis
        by (cases err) (simp_all add: command_def)
    qed
  qed
  then show ?thesis
    by (simp add: install_def C0_def)
qed

lemma Write_run:
  assumes h: "UserHomeDir s = Inr h"
    and i: "install (s\<lparr>run := run'\<rparr>) bin (workspace s bin)
           = (case install s bin (workspace s bin) of (s1, e) \<Rightarrow> (s1\<lparr>run := run'\<rparr>, e))"
  shows "Write (s\<lparr>run := run'\<rparr>) w bin
           = (case Write s w bin of (s2, w2, e) \<Rightarrow> (s2\<lparr>run := run'\<rparr>, w2, e))"
proof -
  from h have ws: "filepath_Join [h, ''.cache'', ''gobinaries'', Module bin] = workspace s bin"
    by (simp add: workspace_def)
  show ?thesis
    using h i by (cases rule: Write_outcome [of s w bin]) (simp_all add: Write_def Let_def ws)
qed

text \<open>A successful \<open>Write\<close> has copied a file that the walk of the workspace visited.\<close>

lemma Write_success_walk:
  assumes "UserHomeDir s = Inr h" and "snd (snd (Write s w bin)) = None"
  shows "\<exists>n v f. os_Lstat (files (fst (install s bin (workspace s bin)))) (workspace s bin) = Inr n
           \<and> v \<in> set (walk (workspace s bin) n) \<and> has_exec_bit v
           \<and> os_Open (files (fst (install s bin (workspace s bin)))) (fst v) = Inr f
           \<and> fst (snd (Write s w bin)) = fst (copy_to_writer w f)"
    and "os_Lstat (files (fst (Write s w bin))) (workspace s bin) = Inl ENOENT"
proof -
  let ?D = "workspace s bin"
  from assms obtain s1 f w1 fs2 where i: "install s bin ?D = (s1, None)"
    and o: "os_Open (files s1) (Walk_dst (files s1) ?D) = Inr f"
    and c: "copy_to_writer w f = (w1, None)"
    and r: "os_RemoveAll (files s1) ?D = (fs2, None)"
    and W: "Write s w bin = (s1\<lparr>files := fs2\<rparr>, w1, None)"
    by (cases rule: Write_outcome [of s w bin]) auto
  from o have ne: "Walk_dst (files s1) ?D \<noteq> []"
    by (auto simp: os_Open_def path_error_def)
  then obtain n where l: "os_Lstat (files s1) ?D = Inr n"
    by (cases "os_Lstat (files s1) ?D") (simp_all add: Walk_dst_def)
  with ne obtain c' cs where cs: "filter has_exec_bit (walk ?D n) = c' # cs"
    and d: "Walk_dst (files s1) ?D = fst (last (c' # cs))"
    by (cases "filter has_exec_bit (walk ?D n)") (simp_all add: Walk_dst_last)
  have "last (c' # cs) \<in> set (filter has_exec_bit (walk ?D n))"
    unfolding cs by (rule last_in_set) simp
  then have v: "last (c' # cs) \<in> set (walk ?D n)" "has_exec_bit (last (c' # cs))"
    by simp_all
  from i l v o d c W
  show "\<exists>n v f. os_Lstat (files (fst (install s bin ?D))) ?D = Inr n
           \<and> v \<in> set (walk ?D n) \<and> has_exec_bit v
           \<and> os_Open (files (fst (install s bin ?D))) (fst v) = Inr f
           \<and> fst (snd (Write s w bin)) = fst (copy_to_writer w f)"
    by (intro exI [of _ n] exI [of _ "last (c' # cs)"] exI [of _ f]) simp
  from RemoveAll_gone [OF r] W
  show "os_Lstat (files (fst (Write s w bin))) ?D = Inl ENOENT"
    by simp
qed

text \<open>The one entry for \<open>GOPATH\<close> that the subprocess gets is the workspace directory.\<close>

lemma install_GOPATH:
  assumes "exec_environ (Env (install_cmd m home bin dir)) = Inr env"
  shows "''GOPATH='' @ dir \<in> set env"
    and "\<forall>kv \<in> set env. env_key kv = Some ''GOPATH'' \<longrightarrow> kv = ''GOPATH='' @ dir"
proof -
  from assms have "\<forall>kv \<in> set (Env (install_cmd m home bin dir)). CHR 0x00 \<notin> set kv"
    by (auto simp: exec_environ_def split: if_splits)
  from exec_environ_install [OF this] assms
  have env: "env = [''PATH='' @ map_get m ''PATH'', ''HOME='' @ map_get m ''HOME'',
           ''PWD='' @ map_get m ''PWD'', ''GOLANG_VERSION='' @ map_get m ''GOLANG_VERSION'',
           ''TMPDIR='' @ map_get m ''TMPDIR'',
           ''GOPATH='' @ dir, ''CGO_ENABLED='' @ CGO bin, ''GOOS='' @ OS bin]
          @ (if strings_HasPrefix (Arch bin) ''armv''
             then [''GOARCH=arm'', ''GOARM='' @ strings_TrimPrefix (Arch bin) ''armv'']
             else [''GOARCH='' @ Arch bin])"
    by simp
  show "''GOPATH='' @ dir \<in> set env"
    unfolding env by simp
  show "\<forall>kv \<in> set env. env_key kv = Some ''GOPATH'' \<longrightarrow> kv = ''GOPATH='' @ dir"
    unfolding env by (simp add: env_key_def)
qed

text \<open>
  C5, as stated, fails: the claim is that any two build attempts get distinct workspace
  directories. A first attempt for \<open>example.com/tool\<close> at \<open>v3.1.0\<close> and a second one after it,
  for the same target or for another version and platform of the module, use the same
  directory.
\<close>

theorem workspace_reused:
  "workspace (world_with built_tree) target_v3 = ''/root/.cache/gobinaries/example.com/tool''
   \<and> workspace (fst (Write (world_with built_tree) writer0 target_v3)) target_v3
       = ''/root/.cache/gobinaries/example.com/tool''
   \<and> workspace (fst (Write (world_with built_tree) writer0 target_v3))
         (target_v3\<lparr>Version := ''v3.2.0'', OS := ''darwin'', Arch := ''arm64''\<rparr>)
       = ''/root/.cache/gobinaries/example.com/tool''"
proof -
  have "UserHomeDir (fst (Write (world_with built_tree) writer0 target_v3)) = Inr ''/root''"
    by (simp add: Write_keeps_home world_with_home)
  then have "workspace (fst (Write (world_with built_tree) writer0 target_v3)) b
      = workspace (world_with built_tree) target_v3" if "Module b = Module target_v3" for b
    using that by (simp add: workspace_def world_with_home)
  then show ?thesis
    by (simp add: workspace_world_with)
qed

text \<open>
  C5, amended. The workspace directory of an attempt is \<open>filepath.Join\<close> of the home
  directory, \<open>.cache\<close>, \<open>gobinaries\<close> and the module path: for a home directory
  \<open>/h1/.../hn\<close> and a module path \<open>m1/.../mk\<close> of plain elements it is
  \<open>/h1/.../hn/.cache/gobinaries/m1/.../mk\<close>. \<open>Write\<close> uses this directory throughout: the
  install subprocess is started with exactly one entry for \<open>GOPATH\<close>, which is this
  directory, and \<open>Write\<close> depends on the effect of running commands through this one
  command only; when \<open>install\<close> with this directory fails \<open>Write\<close> returns its error, and
  otherwise the file it opens, checks and copies is the one the scan from this directory
  leaves in \<open>dst\<close>; a successful \<open>Write\<close> has copied a file that the walk from this
  directory visited, and has removed the directory. \<open>Write\<close> leaves the home directory as
  it is:
  the directory depends on the home directory and the module path only, so an attempt that
  follows another for the same module, whatever the version, platform and CGO flag, uses
  the same directory.
\<close>

theorem Write_workspace_directory:
  "(hs \<noteq> [] \<longrightarrow> ms \<noteq> [] \<longrightarrow> (\<forall>e \<in> set (hs @ ms). plain_element e) \<longrightarrow>
      filepath_Join [CHR ''/'' # strings_Join hs ''/'', ''.cache'', ''gobinaries'',
                     strings_Join ms ''/'']
        = CHR ''/'' # strings_Join hs ''/'' @ ''/.cache/gobinaries/'' @ strings_Join ms ''/'')
   \<and> (UserHomeDir s = Inr h \<longrightarrow>
        D = filepath_Join [h, ''.cache'', ''gobinaries'', Module bin] \<longrightarrow>
        (\<forall>env. exec_environ (Env (install_cmd (environMap s) h bin D)) = Inr env \<longrightarrow>
           ''GOPATH='' @ D \<in> set env
           \<and> (\<forall>kv \<in> set env. env_key kv = Some ''GOPATH'' \<longrightarrow> kv = ''GOPATH='' @ D)
           \<and> (\<forall>run'. run' ((install_cmd (environMap s) h bin D)\<lparr>Env := env\<rparr>) (files s)
                         = run s ((install_cmd (environMap s) h bin D)\<lparr>Env := env\<rparr>) (files s) \<longrightarrow>
                  Write (s\<lparr>run := run'\<rparr>) w bin
                    = (case Write s w bin of (s2, w2, e) \<Rightarrow> (s2\<lparr>run := run'\<rparr>, w2, e))))
        \<and> (\<forall>s1 err. install s bin D = (s1, Some err) \<longrightarrow>
             Write s w bin = (s1, w, Some (Wrap ''tidy module'' err)))
        \<and> (\<forall>s1. install s bin D = (s1, None) \<longrightarrow>
             (case os_Open (files s1) (Walk_dst (files s1) D) of
                Inl e \<Rightarrow> Write s w bin = (s1, w, Some (Wrap ''opening'' (Errno e)))
              | Inr f \<Rightarrow>
                  stat_fault s1 = None \<longrightarrow>
                  fst (snd (Write s w bin))
                    = (if isExecutable (Mode f) then fst (copy_to_writer w f) else w)))
        \<and> (snd (snd (Write s w bin)) = None \<longrightarrow>
             (\<exists>n v f. os_Lstat (files (fst (install s bin D))) D = Inr n
                 \<and> v \<in> set (walk D n) \<and> has_exec_bit v
                 \<and> os_Open (files (fst (install s bin D))) (fst v) = Inr f
                 \<and> fst (snd (Write s w bin)) = fst (copy_to_writer w f))
             \<and> os_Lstat (files (fst (Write s w bin))) D = Inl ENOENT)
        \<and> UserHomeDir (fst (Write s w bin)) = Inr h)"
proof (intro conjI impI allI)
  assume "hs \<noteq> []" and "ms \<noteq> []" and "\<forall>e \<in> set (hs @ ms). plain_element e"
  then show "filepath_Join [CHR ''/'' # strings_Join hs ''/'', ''.cache'', ''gobinaries'',
                     strings_Join ms ''/'']
        = CHR ''/'' # strings_Join hs ''/'' @ ''/.cache/gobinaries/'' @ strings_Join ms ''/''"
    by (rule workspace_form)
next
  fix env
  assume "exec_environ (Env (install_cmd (environMap s) h bin D)) = Inr env"
  then show "''GOPATH='' @ D \<in> set env"
    by (rule install_GOPATH(1))
next
  fix env
  assume "exec_environ (Env (install_cmd (environMap s) h bin D)) = Inr env"
  then show "\<forall>kv \<in> set env. env_key kv = Some ''GOPATH'' \<longrightarrow> kv = ''GOPATH='' @ D"
    by (rule install_GOPATH(2))
next
  fix env run'
  assume h: "UserHomeDir s = Inr h"
    and D: "D = filepath_Join [h, ''.cache'', ''gobinaries'', Module bin]"
    and e: "exec_environ (Env (install_cmd (environMap s) h bin D)) = Inr env"
    and r: "run' ((install_cmd (environMap s) h bin D)\<lparr>Env := env\<rparr>) (files s)
              = run s ((install_cmd (environMap s) h bin D)\<lparr>Env := env\<rparr>) (files s)"
  from h D have ws: "workspace s bin = D"
    by (simp add: workspace_def)
  have "install (s\<lparr>run := run'\<rparr>) bin D
           = (case install s bin D of (s1, e) \<Rightarrow> (s1\<lparr>run := run'\<rparr>, e))"
    using e r by (intro install_run) (simp add: h)
  then show "Write (s\<lparr>run := run'\<rparr>) w bin
               = (case Write s w bin of (s2, w2, e) \<Rightarrow> (s2\<lparr>run := run'\<rparr>, w2, e))"
    by (intro Write_run [OF h]) (simp add: ws)
next
  fix s1 err
  assume h: "UserHomeDir s = Inr h"
    and D: "D = filepath_Join [h, ''.cache'', ''gobinaries'', Module bin]"
    and i: "install s bin D = (s1, Some err)"
  from h D have ws: "workspace s bin = D"
    by (simp add: workspace_def)
  from h i show "Write s w bin = (s1, w, Some (Wrap ''tidy module'' err))"
    by (cases rule: Write_outcome [of s w bin]) (simp_all add: ws)
next
  fix s1
  assume h: "UserHomeDir s = Inr h"
    and D: "D = filepath_Join [h, ''.cache'', ''gobinaries'', Module bin]"
    and i: "install s bin D = (s1, None)"
  from h D have ws: "workspace s bin = D"
    by (simp add: workspace_def)
  show "case os_Open (files s1) (Walk_dst (files s1) D) of
          Inl e \<Rightarrow> Write s w bin = (s1, w, Some (Wrap ''opening'' (Errno e)))
        | Inr f \<Rightarrow>
            stat_fault s1 = None \<longrightarrow>
            fst (snd (Write s w bin))
              = (if isExecutable (Mode f) then fst (copy_to_writer w f) else w)"
  proof (cases "os_Open (files s1) (Walk_dst (files s1) D)")
    case (Inl e)
    with h i show ?thesis
      by (cases rule: Write_outcome [of s w bin]) (simp_all add: ws)
  next
    case (Inr f)
    have "fst (snd (Write s w bin))
              = (if isExecutable (Mode f) then fst (copy_to_writer w f) else w)"
      if "stat_fault s1 = None"
      using h i Inr that by (cases rule: Write_outcome [of s w bin]) (auto simp: ws)
    with Inr show ?thesis
      by simp
  qed
next
  assume h: "UserHomeDir s = Inr h"
    and D: "D = filepath_Join [h, ''.cache'', ''gobinaries'', Module bin]"
    and n: "snd (snd (Write s w bin)) = None"
  from h D have ws: "workspace s bin = D"
    by (simp add: workspace_def)
  from Write_success_walk(1) [OF h n]
  show "\<exists>n v f. os_Lstat (files (fst (install s bin D))) D = Inr n
                 \<and> v \<in> set (walk D n) \<and> has_exec_bit v
                 \<and> os_Open (files (fst (install s bin D))) (fst v) = Inr f
                 \<and> fst (snd (Write s w bin)) = fst (copy_to_writer w f)"
    unfolding ws .
  from Write_success_walk(2) [OF h n]
  show "os_Lstat (files (fst (Write s w bin))) D = Inl ENOENT"
    unfolding ws .
next
  assume "UserHomeDir s = Inr h"
  then show "UserHomeDir (fst (Write s w bin)) = Inr h"
    by (simp add: Write_keeps_home)
qed

theorem Write_workspace_directory_witness:
  "filepath_Join [''/root'', ''.cache'', ''gobinaries'', ''example.com/tool'']
     = ''/root/.cache/gobinaries/example.com/tool''
   \<and> exec_environ (Env (install_cmd Map.empty ''/root'' target_v3
        ''/root/.cache/gobinaries/example.com/tool''))
     = Inr [''PATH='', ''HOME='', ''PWD='', ''GOLANG_VERSION='', ''TMPDIR='',
            ''GOPATH=/root/.cache/gobinaries/example.com/tool'', ''CGO_ENABLED=0'',
            ''GOOS=linux'', ''GOARCH=arm'', ''GOARM=7'']
   \<and> snd (snd (Write (world_with binary_tree) writer0 target_v3)) = None
   \<and> os_Lstat (files (fst (Write (world_with binary_tree) writer0 target_v3)))
        ''/root/.cache/gobinaries/example.com/tool'' = Inl ENOENT
   \<and> UserHomeDir (fst (Write (world_with binary_tree) writer0 target_v3)) = Inr ''/root''
   \<and> Walk_dst \<lparr>root = built_tree, cwd = [], umask = 18\<rparr>
         ''/root/.cache/gobinaries/example.com/tool''
     = ''/root/.cache/gobinaries/example.com/tool/bin/b''
   \<and> fst (snd (Write (world_with built_tree) writer0 target_v3)) = writer0
   \<and> snd (Write ((world_with binary_tree)\<lparr>run := (\<lambda>cmd fs.
          if ''GOPATH=/root/.cache/gobinaries/example.com/tool'' \<in> set (Env cmd)
          then (fs\<lparr>root := binary_tree\<rparr>, None, [])
          else (fs, Some (ErrString ''exit status 1''), []))\<rparr>) writer0 target_v3)
     = (writer0\<lparr>written := [4, 5]\<rparr>, None)"
proof -
  let ?s = "world_with binary_tree"
  let ?D = "''/root/.cache/gobinaries/example.com/tool''"
  let ?s1 = "?s\<lparr>files := \<lparr>root = binary_tree, cwd = [], umask = 18\<rparr>\<rparr>"
  let ?env = "[''PATH='', ''HOME='', ''PWD='', ''GOLANG_VERSION='', ''TMPDIR='',
            ''GOPATH=/root/.cache/gobinaries/example.com/tool'', ''CGO_ENABLED=0'',
            ''GOOS=linux'', ''GOARCH=arm'', ''GOARM=7'']"
  let ?run' = "\<lambda>cmd fs.
          if ''GOPATH=/root/.cache/gobinaries/example.com/tool'' \<in> set (Env cmd)
          then (fs\<lparr>root := binary_tree\<rparr>, None, [])
          else (fs, Some (ErrString ''exit status 1''), [])"
  have i: "install ?s target_v3 (workspace ?s target_v3) = (?s1, None)"
    by (rule install_world_with)
  have f: "stat_fault ?s1 = None" "close_fault ?s1 = None" "remove_fault ?s1 = None"
    by (simp_all add: world_with_def)
  have o: "os_Open (files ?s1) (Walk_dst (files ?s1) (workspace ?s target_v3))
             = Inr (File 493 [4, 5])"
    by (simp add: workspace_world_with binary_dst binary_Open)
  have r: "os_RemoveAll (files ?s1) (workspace ?s target_v3)
     = (\<lparr>root = Directory 493 [(''root'', Directory 493 [(''.cache'', Directory 493
        [(''gobinaries'', Directory 493 [(''example.com'', Directory 493 [])])])])], cwd = [], umask = 18\<rparr>, None)"
    by (simp add: workspace_world_with binary_RemoveAll)
  have W: "Write ?s writer0 target_v3
     = (?s1\<lparr>files := \<lparr>root = Directory 493 [(''root'', Directory 493 [(''.cache'', Directory 493
        [(''gobinaries'', Directory 493 [(''example.com'', Directory 493 [])])])])], cwd = [], umask = 18\<rparr>\<rparr>,
        writer0\<lparr>written := [4, 5]\<rparr>, None)"
    using world_with_home [of binary_tree] i f o example_modes(1) binary_copy r
    by (cases rule: Write_outcome [of ?s writer0 target_v3]) (auto simp del: Mode.simps)
  then have n: "snd (snd (Write ?s writer0 target_v3)) = None"
    by simp
  have D: "?D = filepath_Join [''/root'', ''.cache'', ''gobinaries'', Module target_v3]"
    using workspace_world_with [of binary_tree] by (simp add: workspace_def world_with_home)
  have e: "exec_environ (Env (install_cmd (environMap ?s) ''/root'' target_v3 ?D)) = Inr ?env"
    unfolding world_with_def by code_simp
  have em: "environMap ?s = Map.empty"
    by (simp add: world_with_def)
  have ag: "?run' ((install_cmd (environMap ?s) ''/root'' target_v3 ?D)\<lparr>Env := ?env\<rparr>) (files ?s)
      = run ?s ((install_cmd (environMap ?s) ''/root'' target_v3 ?D)\<lparr>Env := ?env\<rparr>) (files ?s)"
    by (simp add: world_with_def)
  have p: "[''root''] \<noteq> []" "[''example.com'', ''tool''] \<noteq> []"
    "\<forall>e \<in> set ([''root''] @ [''example.com'', ''tool'']). plain_element e"
    by (simp_all add: plain_element_def)
  note t = Write_workspace_directory [of "[''root'']" "[''example.com'', ''tool'']" ?s "''/root''"
      ?D target_v3 writer0]
  from t p have a: "filepath_Join [''/root'', ''.cache'', ''gobinaries'', ''example.com/tool'']
     = ''/root/.cache/gobinaries/example.com/tool''"
    by simp
  note t2 = t [THEN conjunct2, THEN mp, OF world_with_home, THEN mp, OF D]
  note b = t2 [THEN conjunct2, THEN conjunct2, THEN conjunct2, THEN conjunct1, THEN mp, OF n,
      THEN conjunct2]
  note c = t2 [THEN conjunct2, THEN conjunct2, THEN conjunct2, THEN conjunct2]
  note g = t2 [THEN conjunct1, THEN spec, THEN mp, OF e]
  from g [THEN conjunct2, THEN conjunct2, THEN spec, of ?run', THEN mp, OF ag]
  have d: "snd (Write (?s\<lparr>run := ?run'\<rparr>) writer0 target_v3)
      = (writer0\<lparr>written := [4, 5]\<rparr>, None)"
    unfolding W by simp
  let ?b = "world_with built_tree"
  let ?b1 = "?b\<lparr>files := \<lparr>root = built_tree, cwd = [], umask = 18\<rparr>\<rparr>"
  have ib: "install ?b target_v3 ?D = (?b1, None)"
    using install_world_with [of built_tree] by (simp add: workspace_world_with)
  have ob: "os_Open (files ?b1) (Walk_dst (files ?b1) ?D) = Inr (File 484 [1, 2, 3])"
    by (simp add: built_dst built_Open)
  have sb: "stat_fault ?b1 = None"
    by (simp add: world_with_def)
  note tb = Write_workspace_directory [of "[''root'']" "[''example.com'', ''tool'']" ?b "''/root''"
      ?D target_v3 writer0, THEN conjunct2, THEN mp, OF world_with_home, THEN mp, OF D]
  from tb [THEN conjunct2, THEN conjunct2, THEN conjunct1, THEN spec, THEN mp, OF ib] ob sb
  have k: "fst (snd (Write ?b writer0 target_v3)) = writer0"
    using example_modes(2) by (simp del: Mode.simps)
  from a e [unfolded em] n b c d k built_dst show ?thesis
    by blast
qed

end
